theory Spec2Isabelle
  imports Main "HOL-Library.Word"
begin

section \<open>Sync lock (core/sync/lock-manager.ts)\<close>

text \<open>
  The lock is one record kept under the key \<open>SYNC_LOCK_KEY\<close> of
  \<open>browser.storage.local\<close>. Only that key is read or written by the lock manager, so
  the storage is modelled by the value found under it: \<open>None\<close> when the key is absent.
  Times are epoch milliseconds as \<open>Date.now()\<close> returns them.
\<close>

record SyncLock =
  holder :: string
  timestamp :: int
  lockId :: string

type_synonym lock_storage = "SyncLock option"

text \<open>The only field of a \<open>SyncLockManager\<close> instance: \<open>string | null\<close>.\<close>

record SyncLockManager =
  activeLockId :: "string option"

definition new_SyncLockManager :: SyncLockManager where
  "new_SyncLockManager = \<lparr>activeLockId = None\<rparr>"

definition LOCK_TIMEOUT_MS :: int where
  \<comment> \<open>Modelled from the spec: the constant is imported from \<open>./types\<close>, which is not among
      the sources; the spec gives the timeout as 60 seconds.\<close>
  "LOCK_TIMEOUT_MS = 60000"

text \<open>
  JavaScript truthiness of a \<open>string | null\<close> value, as used by
  \<open>if (this.activeLockId && ...)\<close>: \<open>null\<close> and the empty string are falsy.
\<close>

definition truthy :: "string option \<Rightarrow> bool" where
  "truthy v = (case v of None \<Rightarrow> False | Some s \<Rightarrow> s \<noteq> [])"

text \<open>Decimal rendering of a number inside a template literal.\<close>

fun string_of_nat :: "nat \<Rightarrow> string" where
  "string_of_nat n =
     (if n < 10 then [char_of (48 + n)]
      else string_of_nat (n div 10) @ [char_of (48 + n mod 10)])"

declare string_of_nat.simps [simp del]

definition string_of_int :: "int \<Rightarrow> string" where
  "string_of_int i = (if i < 0 then CHR ''-'' # string_of_nat (nat (- i)) else string_of_nat (nat i))"

text \<open>
  What one call of \<open>acquire\<close> takes from outside: whether each storage call rejects,
  the three readings of \<open>Date.now()\<close> (age check, lockId, timestamp) and the text
  \<open>Math.random().toString(36).slice(2)\<close>.
\<close>

record acquire_env =
  get_rejects :: bool
  now_check :: int
  now_id :: int
  now_stamp :: int
  random_suffix :: string
  set_rejects :: bool
  verify_rejects :: bool

text \<open>Lines 25-45: the first read. \<open>True\<close> when the call goes on to write.\<close>

definition acquire_check :: "acquire_env \<Rightarrow> lock_storage \<Rightarrow> bool" where
  "acquire_check env st =
     (if get_rejects env then False
      else (case st of
              None \<Rightarrow> True
            | Some existingLock \<Rightarrow>
                (let lockAge = now_check env - timestamp existingLock
                 in if lockAge < LOCK_TIMEOUT_MS then False else True)))"

text \<open>Lines 48-53: the fresh lockId and the lock record.\<close>

definition fresh_lockId :: "acquire_env \<Rightarrow> string \<Rightarrow> string" where
  "fresh_lockId env hld = hld @ ''_'' @ string_of_int (now_id env) @ ''_'' @ random_suffix env"

definition newLock :: "acquire_env \<Rightarrow> string \<Rightarrow> SyncLock" where
  "newLock env hld = \<lparr>holder = hld, timestamp = now_stamp env, lockId = fresh_lockId env hld\<rparr>"

text \<open>Lines 60-63: the re-read after the settle delay, \<open>verifyLock?.lockId === lockId\<close>.\<close>

definition acquire_verify :: "acquire_env \<Rightarrow> string \<Rightarrow> lock_storage \<Rightarrow> bool" where
  "acquire_verify env hld st =
     (if verify_rejects env then False
      else (case st of None \<Rightarrow> False | Some verifyLock \<Rightarrow> lockId verifyLock = fresh_lockId env hld))"

text \<open>
  \<open>acquire\<close> run without interference: the result, the storage and the instance
  afterwards. A rejected storage call lands in the \<open>catch\<close>, which returns false.
\<close>

definition acquire ::
  "acquire_env \<Rightarrow> string \<Rightarrow> lock_storage \<times> SyncLockManager \<Rightarrow> bool \<times> lock_storage \<times> SyncLockManager"
where
  "acquire env hld w =
     (case w of (st, m) \<Rightarrow>
        if \<not> acquire_check env st then (False, st, m)
        else if set_rejects env then (False, st, m)
        else (let st' = Some (newLock env hld)
              in if acquire_verify env hld st'
                 then (True, st', m\<lparr>activeLockId := Some (fresh_lockId env hld)\<rparr>)
                 else (False, st', m)))"

text \<open>What one call of \<open>release\<close> takes from outside.\<close>

record release_env =
  read_rejects :: bool
  remove_rejects :: bool

text \<open>Lines 83-119. Every path of the \<open>catch\<close> resets \<open>activeLockId\<close>.\<close>

definition release ::
  "release_env \<Rightarrow> string \<Rightarrow> lock_storage \<times> SyncLockManager \<Rightarrow> lock_storage \<times> SyncLockManager"
where
  "release env hld w =
     (case w of (st, m) \<Rightarrow>
        if read_rejects env then (st, m\<lparr>activeLockId := None\<rparr>)
        else (case st of
                None \<Rightarrow> (st, m\<lparr>activeLockId := None\<rparr>)
              | Some existingLock \<Rightarrow>
                  if holder existingLock \<noteq> hld then (st, m)
                  else if truthy (activeLockId m) \<and> Some (lockId existingLock) \<noteq> activeLockId m
                  then (st, m\<lparr>activeLockId := None\<rparr>)
                  else if remove_rejects env then (st, m\<lparr>activeLockId := None\<rparr>)
                  else (None, m\<lparr>activeLockId := None\<rparr>)))"

text \<open>
  The values \<open>activeLockId\<close> takes: \<open>null\<close> at construction and after \<open>release\<close>, a
  freshly generated lockId after a successful \<open>acquire\<close>. A generated lockId
  contains the separator, so it is never the empty string.
\<close>

definition instance_ok :: "SyncLockManager \<Rightarrow> bool" where
  "instance_ok m = (activeLockId m \<noteq> Some [])"

definition quiet_acquire :: "acquire_env \<Rightarrow> bool" where
  "quiet_acquire env = (\<not> get_rejects env \<and> \<not> set_rejects env \<and> \<not> verify_rejects env)"

definition quiet_release :: "release_env \<Rightarrow> bool" where
  "quiet_release env = (\<not> read_rejects env \<and> \<not> remove_rejects env)"

section \<open>Errors and messages\<close>

text \<open>
  The message texts of the sources are named by constructors, one for each literal;
  \<open>Text\<close> carries any other message (the empty text is the falsy message). A thrown
  value is an \<open>Error\<close> with its message; a call that may throw or reject returns
  \<open>exn + 'a\<close>, with \<open>Inl\<close> for the throw.
\<close>

datatype message =
    NetworkOffline
  | SyncInProgress
  | LocalBookmarksEmpty
  | CloudDataCorrupted
  | CloudHasUpdates
  | AlreadySynced
  | BackupDataInvalid
  | BookmarkDataEmpty
  | UploadSucceeded
  | UploadFailed
  | WebDAVAuthFailed
  | Base64DecodeFailed
  | RangeError
  | Text string

datatype exn = Error message

section \<open>Directory listing (WebDAVClient.listFiles)\<close>

record Response =
  status :: nat
  ok :: bool

record WebDAVFile =
  name :: string
  path :: string
  lastModified :: int
  size_bytes :: int

text \<open>
  What one call of \<open>listFiles\<close> takes from outside: the outcome of \<open>fetch\<close> (it
  rejects on a network failure) and the outcome of lines 322-445, which read the
  body and parse the multistatus document (structured parser, then the regex
  fallback); a throw there is \<open>Inl\<close>.
\<close>

record listFiles_env =
  fetch :: "exn + Response"
  parse_multistatus :: "exn + WebDAVFile list"

text \<open>The body of the \<open>try\<close>, lines 292-445.\<close>

definition listFiles_try :: "listFiles_env \<Rightarrow> exn + WebDAVFile list" where
  "listFiles_try env =
     (case fetch env of
        Inl e \<Rightarrow> Inl e
      | Inr response \<Rightarrow>
          if status response = 401 \<or> status response = 403 then Inl (Error WebDAVAuthFailed)
          else if status response = 404 then Inr []
          else if \<not> ok response \<and> status response \<noteq> 207 then Inr []
          else parse_multistatus env)"

text \<open>
  Lines 290-450: the \<open>try\<close> and its \<open>catch (error)\<close>, which logs the error and returns
  the empty list. The \<open>throw\<close> of line 307 stands inside that \<open>try\<close>.
\<close>

definition listFiles :: "listFiles_env \<Rightarrow> exn + WebDAVFile list" where
  "listFiles env = (case listFiles_try env of Inl error \<Rightarrow> Inr [] | Inr files \<Rightarrow> Inr files)"

section \<open>Push strategy (core/sync/strategies/push-strategy.ts)\<close>

datatype BookmarkNode =
  BookmarkNode (title: string) (url: "string option") (children: "BookmarkNode list option")

record BackupMetadata =
  meta_timestamp :: int
  clientVersion :: string

record CloudBackup =
  metadata :: "BackupMetadata option"
  data :: "BookmarkNode list option"

record BackupFileInfo =
  fileName :: string
  filePath :: string
  createdAt :: int
  revisionNumber :: int

record WebDAVConfig =
  config_url :: string
  username :: string
  password :: string

datatype sync_action = Uploaded | Skipped | ActionError

record SyncResult =
  success :: bool
  action :: sync_action
  message :: message

datatype sync_type = SkipIdentical | Upload

text \<open>
  The calls of \<open>smartPush\<close> that change something outside it, in the order they are
  made: the trace of one execution.
\<close>

datatype event =
    Call_createSnapshot "BookmarkNode list" nat
  | Call_setSyncState sync_type string
  | Call_createDirectory string
  | Call_putFile string string
  | Call_deleteFile string
  | Call_saveLastBackupFileInfo BackupFileInfo
  | Call_cleanOldBackups nat
  | Call_clearBackupListCache

fun countNode :: "BookmarkNode \<Rightarrow> nat" where
  "countNode (BookmarkNode t u c) =
     (if truthy u then 1 else 0)
     + (case c of None \<Rightarrow> 0 | Some cs \<Rightarrow> sum_list (map countNode cs))"

definition countBookmarks :: "BookmarkNode list \<Rightarrow> nat" where
  \<comment> \<open>Modelled from the spec: \<open>core/bookmark/comparator.ts\<close> is not among the sources.
      The spec: recursive count of the URL-bearing nodes; folders contribute 0
      directly.\<close>
  "countBookmarks nodes = sum_list (map countNode nodes)"

definition DIR :: string where
  \<comment> \<open>Modelled from the spec: \<open>STORAGE_CONSTANTS.BACKUP_DIR\<close> is not among the sources;
      the value is the one the repository's tests give it.\<close>
  "DIR = ''BookmarkSyncer''"

text \<open>\<open>s.endsWith(suffix)\<close> and \<open>path.split("/").pop() || ""\<close>.\<close>

definition endsWith :: "string \<Rightarrow> string \<Rightarrow> bool" where
  "endsWith s suf = (length suf \<le> length s \<and> drop (length s - length suf) s = suf)"

definition last_segment :: "string \<Rightarrow> string" where
  "last_segment s = rev (takeWhile (\<lambda>c. c \<noteq> CHR ''/'') (rev s))"

text \<open>
  What one execution of \<open>smartPush\<close> takes from outside: \<open>navigator.onLine\<close>, what the
  two lock calls take, the clock, and the outcome of every call into a module that is
  not among the sources (a call named after its function; \<open>Inl\<close> is a throw or a
  rejection). \<open>parsedBrowser\<close> is \<open>parseBackupFileName(fileName)?.browser\<close>,
  \<open>compressBackup\<close> is \<open>compressText(JSON.stringify(backup))\<close>. \<open>JSON_parse\<close> gives
  \<open>None\<close> for the text \<open>null\<close>. \<open>countBookmarks_undefined\<close> is what \<open>countBookmarks\<close>
  does when it is handed \<open>undefined\<close>, the \<open>data\<close> of a cloud backup that has none.
  Of the log lines only what can throw in them is modelled: the \<open>toISOString\<close> calls
  of lines 98, 114 and 124 and the count of line 94, all inside the \<open>try\<close> of line 82.
\<close>

record push_env =
  onLine :: bool
  lock_env :: acquire_env
  unlock_env :: release_env
  getTree :: "exn + BookmarkNode list"
  createSnapshot :: "exn + unit"
  getLatestBackupFile :: "exn + string option"
  getFileWithDedup :: "string \<Rightarrow> exn + string option"
  JSON_parse :: "string \<Rightarrow> exn + CloudBackup option"
  countBookmarks_undefined :: "exn + nat"
  getLastSyncTime :: "string \<Rightarrow> exn + int"
  compareWithCloud :: "BookmarkNode list \<Rightarrow> CloudBackup \<Rightarrow> exn + bool"
  browserName :: string
  parsedBrowser :: "string \<Rightarrow> string option"
  isSameBrowser :: "string \<Rightarrow> string \<Rightarrow> bool"
  setSyncState :: "sync_type \<Rightarrow> exn + unit"
  createCloudBackup :: "exn + CloudBackup option"
  exists_dir :: "string \<Rightarrow> bool"
  createDirectory :: "string \<Rightarrow> exn + unit"
  getBackupFileInterval :: "exn + int"
  getLastBackupFileInfo :: "exn + BackupFileInfo option"
  Date_now :: int
  generateBackupFileName :: "string \<Rightarrow> nat \<Rightarrow> int \<Rightarrow> string"
  compressBackup :: "CloudBackup \<Rightarrow> exn + string"
  putFile :: "string \<Rightarrow> string \<Rightarrow> exn + unit"
  deleteFile :: "string \<Rightarrow> exn + unit"
  saveLastBackupFileInfo :: "BackupFileInfo \<Rightarrow> exn + unit"
  cleanOldBackups :: "exn + unit"
  clearBackupListCache :: "exn + unit"

definition failure :: "message \<Rightarrow> SyncResult" where
  "failure msg = \<lparr>success = False, action = ActionError, message = msg\<rparr>"

text \<open>
  \<open>cloudData.metadata?.timestamp || 0\<close>, line 95. The timestamp is a number of
  milliseconds, here an integer.
\<close>

definition cloudTime_of :: "CloudBackup \<Rightarrow> int" where
  "cloudTime_of cloudData =
     (case metadata cloudData of
        None \<Rightarrow> 0
      | Some md \<Rightarrow> if meta_timestamp md = 0 then 0 else meta_timestamp md)"

text \<open>Line 94: \<open>countBookmarks(cloudData.data)\<close>.\<close>

definition cloudCount_of :: "push_env \<Rightarrow> CloudBackup \<Rightarrow> exn + nat" where
  "cloudCount_of env cloudData =
     (case data cloudData of
        None \<Rightarrow> countBookmarks_undefined env
      | Some nodes \<Rightarrow> Inr (countBookmarks nodes))"

text \<open>
  \<open>new Date(t).toISOString()\<close> throws a \<open>RangeError\<close> when \<open>t\<close> is not a time value: a
  time value is at most 8.64e15 milliseconds away from the epoch. The text it returns
  is only logged.
\<close>

definition valid_time :: "int \<Rightarrow> bool" where
  "valid_time t = (- 8640000000000000 \<le> t \<and> t \<le> 8640000000000000)"

definition toISOString :: "int \<Rightarrow> exn + unit" where
  "toISOString t = (if valid_time t then Inr () else Inl (Error RangeError))"

text \<open>The template of lines 114 and 124: the cloud time, then the last sync time.\<close>

definition log_times :: "int \<Rightarrow> int \<Rightarrow> exn + unit" where
  "log_times cloudTime lastSyncTime =
     (case toISOString cloudTime of
        Inl e \<Rightarrow> Inl e
      | Inr logged \<Rightarrow> toISOString lastSyncTime)"

text \<open>Lines 141-143: the browser named by the latest backup's file name.\<close>

definition cloudBrowser_of :: "push_env \<Rightarrow> string \<Rightarrow> string" where
  "cloudBrowser_of env latestBackupPath =
     (let fileName = last_segment latestBackupPath
      in case parsedBrowser env fileName of None \<Rightarrow> [] | Some b \<Rightarrow> b)"

text \<open>
  Lines 129-168: the comparison of contents, once a cloud backup is at hand and the
  push was not blocked. \<open>Some r\<close> is \<open>return r\<close>; \<open>None\<close> goes on to the upload, also
  when a call throws (the \<open>catch\<close> of line 173).
\<close>

definition compare_content ::
  "push_env \<Rightarrow> string \<Rightarrow> string \<Rightarrow> BookmarkNode list \<Rightarrow> string \<Rightarrow> CloudBackup
     \<Rightarrow> SyncResult option \<times> event list"
where
  "compare_content env cfg_url lockHolder localTree latestBackupPath cloudData =
     (case compareWithCloud env localTree cloudData of
        Inl e \<Rightarrow> (None, [])
      | Inr isIdentical \<Rightarrow>
          if isIdentical then
            (let cloudBrowser = cloudBrowser_of env latestBackupPath;
                 isBrowserMatch = isSameBrowser env (browserName env) cloudBrowser;
                 isManualSync = (lockHolder = ''manual'')
             in if isManualSync \<and> isBrowserMatch then (None, [])
                else (case setSyncState env SkipIdentical of
                        Inl e \<Rightarrow> (None, [Call_setSyncState SkipIdentical cfg_url])
                      | Inr u \<Rightarrow>
                          (Some \<lparr>success = True, action = Skipped, message = AlreadySynced\<rparr>,
                           [Call_setSyncState SkipIdentical cfg_url])))
          else (None, []))"

text \<open>
  Lines 94-127, once the cloud backup is parsed: the count and the time of the cloud
  backup are logged, the last sync time is read, and a cloud backup newer than the
  last sync blocks every holder but \<open>manual\<close>. A throw on the way, also one of a log
  line, goes on to the upload (the \<open>catch\<close> of line 173).
\<close>

definition check_times ::
  "push_env \<Rightarrow> string \<Rightarrow> string \<Rightarrow> BookmarkNode list \<Rightarrow> string \<Rightarrow> CloudBackup
     \<Rightarrow> SyncResult option \<times> event list"
where
  "check_times env cfg_url lockHolder localTree latestBackupPath cloudData =
     (case cloudCount_of env cloudData of
        Inl e \<Rightarrow> (None, [])
      | Inr cloudCount \<Rightarrow>
          (let cloudTime = cloudTime_of cloudData
           in case toISOString cloudTime of
                Inl e \<Rightarrow> (None, [])
              | Inr logged \<Rightarrow>
                  (case getLastSyncTime env cfg_url of
                     Inl e \<Rightarrow> (None, [])
                   | Inr lastSyncTime \<Rightarrow>
                       if cloudTime > lastSyncTime then
                         (let isManualSync = (lockHolder = ''manual'')
                          in if \<not> isManualSync then
                               (case log_times cloudTime lastSyncTime of
                                  Inl e \<Rightarrow> (None, [])
                                | Inr logged \<Rightarrow> (Some (failure CloudHasUpdates), []))
                             else
                               (case log_times cloudTime lastSyncTime of
                                  Inl e \<Rightarrow> (None, [])
                                | Inr logged \<Rightarrow>
                                    compare_content env cfg_url lockHolder localTree
                                      latestBackupPath cloudData))
                       else compare_content env cfg_url lockHolder localTree
                              latestBackupPath cloudData)))"

text \<open>
  Lines 82-176: the look at the cloud before the upload. Reading \<open>data\<close> of \<open>null\<close>
  throws a \<open>TypeError\<close>.
\<close>

definition check_cloud ::
  "push_env \<Rightarrow> string \<Rightarrow> string \<Rightarrow> BookmarkNode list \<Rightarrow> SyncResult option \<times> event list"
where
  "check_cloud env cfg_url lockHolder localTree =
     (case getLatestBackupFile env of
        Inl e \<Rightarrow> (None, [])
      | Inr latestBackupPath \<Rightarrow>
          if \<not> truthy latestBackupPath then (None, [])
          else (case getFileWithDedup env (the latestBackupPath) of
                  Inl e \<Rightarrow> (None, [])
                | Inr cloudJson \<Rightarrow>
                    if \<not> truthy cloudJson then (None, [])
                    else (case JSON_parse env (the cloudJson) of
                            Inl e \<Rightarrow> (None, [])
                          | Inr parsed \<Rightarrow>
                              (case parsed of
                                 None \<Rightarrow> (None, [])
                               | Some cloudData \<Rightarrow>
                                   check_times env cfg_url lockHolder localTree
                                     (the latestBackupPath) cloudData))))"

text \<open>
  Lines 219-244: new file or revision replace. The result is the target file name,
  the revision number, \<open>isNewFile\<close> and \<open>oldFileToDelete\<close>.
\<close>

definition choose_target ::
  "push_env \<Rightarrow> BackupFileInfo option \<Rightarrow> int \<Rightarrow> nat \<Rightarrow> string \<times> int \<times> bool \<times> string option"
where
  "choose_target env lastBackupInfo backupIntervalMs bookmarkCount =
     (case lastBackupInfo of
        None \<Rightarrow> (generateBackupFileName env (browserName env) bookmarkCount 1, 1, True, None)
      | Some info \<Rightarrow>
          if Date_now env - createdAt info < backupIntervalMs
          then (generateBackupFileName env (browserName env) bookmarkCount (revisionNumber info + 1),
                revisionNumber info + 1, False, Some (filePath info))
          else (generateBackupFileName env (browserName env) bookmarkCount 1, 1, True, None))"

text \<open>\<open>createdAt: isNewFile ? now : (lastBackupInfo?.createdAt || now)\<close>, line 283.\<close>

definition kept_createdAt :: "push_env \<Rightarrow> bool \<Rightarrow> BackupFileInfo option \<Rightarrow> int" where
  "kept_createdAt env isNewFile lastBackupInfo =
     (if isNewFile then Date_now env
      else (case lastBackupInfo of
              None \<Rightarrow> Date_now env
            | Some info \<Rightarrow> if createdAt info = 0 then Date_now env else createdAt info))"

text \<open>
  Lines 298-310, after the files are written: the cache, the sync state, the result.
\<close>

definition finish_upload :: "push_env \<Rightarrow> string \<Rightarrow> (exn + SyncResult) \<times> event list" where
  "finish_upload env cfg_url =
     (case clearBackupListCache env of
        Inl e \<Rightarrow> (Inl e, [Call_clearBackupListCache])
      | Inr u \<Rightarrow>
          (case setSyncState env Upload of
             Inl e \<Rightarrow> (Inl e, [Call_clearBackupListCache, Call_setSyncState Upload cfg_url])
           | Inr u \<Rightarrow>
               (Inr \<lparr>success = True, action = Uploaded, message = UploadSucceeded\<rparr>,
                [Call_clearBackupListCache, Call_setSyncState Upload cfg_url])))"

text \<open>
  Lines 264-296: the new file is put; then the old one is deleted, inside a
  \<open>try\<close>/\<open>catch\<close> of its own, as is the saving of the file information; old backups
  are cleaned only after a new file.
\<close>

definition write_files ::
  "push_env \<Rightarrow> string \<Rightarrow> string \<Rightarrow> string \<Rightarrow> string \<Rightarrow> int \<Rightarrow> bool \<Rightarrow> string option
     \<Rightarrow> BackupFileInfo option \<Rightarrow> (exn + SyncResult) \<times> event list"
where
  "write_files env cfg_url finalFileName targetFilePath fileContent revNumber isNewFile
       oldFileToDelete lastBackupInfo =
     (case putFile env targetFilePath fileContent of
        Inl e \<Rightarrow> (Inl e, [Call_putFile targetFilePath fileContent])
      | Inr u \<Rightarrow>
          (let deleted =
                 (if truthy oldFileToDelete
                  then (case deleteFile env (the oldFileToDelete) of
                          Inl e \<Rightarrow> [Call_deleteFile (the oldFileToDelete)]
                        | Inr u \<Rightarrow> [Call_deleteFile (the oldFileToDelete)])
                  else []);
               info = \<lparr>fileName = finalFileName, filePath = targetFilePath,
                        createdAt = kept_createdAt env isNewFile lastBackupInfo,
                        revisionNumber = revNumber\<rparr>;
               saved = (case saveLastBackupFileInfo env info of
                          Inl e \<Rightarrow> [Call_saveLastBackupFileInfo info]
                        | Inr u \<Rightarrow> [Call_saveLastBackupFileInfo info]);
               written = [Call_putFile targetFilePath fileContent] @ deleted @ saved
           in if isNewFile
              then (case cleanOldBackups env of
                      Inl e \<Rightarrow> (Inl e, written @ [Call_cleanOldBackups 3])
                    | Inr u \<Rightarrow>
                        (case finish_upload env cfg_url of
                           (r, evs) \<Rightarrow> (r, written @ [Call_cleanOldBackups 3] @ evs)))
              else (case finish_upload env cfg_url of (r, evs) \<Rightarrow> (r, written @ evs))))"

text \<open>Lines 198-262, once the backup is valid and the directory exists.\<close>

definition prepare_and_write ::
  "push_env \<Rightarrow> string \<Rightarrow> CloudBackup \<Rightarrow> BookmarkNode list \<Rightarrow> (exn + SyncResult) \<times> event list"
where
  "prepare_and_write env cfg_url backup backup_data =
     (case getBackupFileInterval env of
        Inl e \<Rightarrow> (Inl e, [])
      | Inr backupIntervalMinutes \<Rightarrow>
          (case getLastBackupFileInfo env of
             Inl e \<Rightarrow> (Inl e, [])
           | Inr lastBackupInfo \<Rightarrow>
               (let backupIntervalMs = backupIntervalMinutes * 60 * 1000;
                    bookmarkCount = countBookmarks backup_data
                in case choose_target env lastBackupInfo backupIntervalMs bookmarkCount of
                     (targetFileName, revNumber, isNewFile, oldFileToDelete) \<Rightarrow>
                       (case compressBackup env backup of
                          Inl e \<Rightarrow> (Inl e, [])
                        | Inr fileContent \<Rightarrow>
                            (let targetFilePath0 = DIR @ ''/'' @ targetFileName;
                                 finalFileName =
                                   (if endsWith targetFileName ''.gz'' then targetFileName
                                    else targetFileName @ ''.gz'');
                                 targetFilePath =
                                   (if \<not> endsWith targetFilePath0 ''.gz'' then targetFilePath0 @ ''.gz''
                                    else targetFilePath0)
                             in write_files env cfg_url finalFileName targetFilePath fileContent
                                  revNumber isNewFile oldFileToDelete lastBackupInfo)))))"

text \<open>Lines 178-310: the upload.\<close>

definition upload :: "push_env \<Rightarrow> string \<Rightarrow> (exn + SyncResult) \<times> event list" where
  "upload env cfg_url =
     (case createCloudBackup env of
        Inl e \<Rightarrow> (Inl e, [])
      | Inr created \<Rightarrow>
          (case created of
             None \<Rightarrow> (Inr (failure BackupDataInvalid), [])
           | Some backup \<Rightarrow>
               (case data backup of
                  None \<Rightarrow> (Inr (failure BackupDataInvalid), [])
                | Some backup_data \<Rightarrow>
                    if metadata backup = None then (Inr (failure BackupDataInvalid), [])
                    else if backup_data = [] then (Inr (failure BookmarkDataEmpty), [])
                    else if exists_dir env DIR then prepare_and_write env cfg_url backup backup_data
                    else (case createDirectory env DIR of
                            Inl e \<Rightarrow> (Inl e, [Call_createDirectory DIR])
                          | Inr u \<Rightarrow>
                              (case prepare_and_write env cfg_url backup backup_data of
                                 (r, evs) \<Rightarrow> (r, Call_createDirectory DIR # evs))))))"

text \<open>Lines 52-310: the body of the outer \<open>try\<close>.\<close>

definition push_try :: "push_env \<Rightarrow> string \<Rightarrow> string \<Rightarrow> (exn + SyncResult) \<times> event list" where
  "push_try env cfg_url lockHolder =
     (case getTree env of
        Inl e \<Rightarrow> (Inl e, [])
      | Inr localTree \<Rightarrow>
          (let localCount = countBookmarks localTree
           in if localCount = 0 then (Inr (failure LocalBookmarksEmpty), [])
              else (let snapshot = (case createSnapshot env of
                                      Inl e \<Rightarrow> [Call_createSnapshot localTree localCount]
                                    | Inr u \<Rightarrow> [Call_createSnapshot localTree localCount])
                    in case check_cloud env cfg_url lockHolder localTree of
                         (Some r, evs) \<Rightarrow> (Inr r, snapshot @ evs)
                       | (None, evs) \<Rightarrow>
                           (case upload env cfg_url of (r, evs') \<Rightarrow> (r, snapshot @ evs @ evs')))))"

text \<open>Lines 311-319: the outer \<open>catch\<close>, \<open>(error as Error).message || [UploadFailed]\<close>.\<close>

definition catch_push :: "exn + SyncResult \<Rightarrow> SyncResult" where
  "catch_push r =
     (case r of
        Inr res \<Rightarrow> res
      | Inl (Error msg) \<Rightarrow> failure (if msg = Text [] then UploadFailed else msg))"

text \<open>
  \<open>smartPush(config, lockHolder, {skipLock})\<close>: the result, the trace and the lock
  (storage and manager) afterwards. The \<open>finally\<close> of line 320 releases the lock after
  every way out of the \<open>try\<close>, unless the lock was inherited.
\<close>

definition smartPush ::
  "push_env \<Rightarrow> WebDAVConfig \<Rightarrow> string \<Rightarrow> bool \<Rightarrow> lock_storage \<times> SyncLockManager
     \<Rightarrow> SyncResult \<times> event list \<times> (lock_storage \<times> SyncLockManager)"
where
  "smartPush env config lockHolder skipLock w =
     (if \<not> onLine env then (failure NetworkOffline, [], w)
      else if \<not> skipLock then
        (case acquire (lock_env env) lockHolder w of
           (lockAcquired, w1) \<Rightarrow>
             if \<not> lockAcquired then (failure SyncInProgress, [], w1)
             else (case push_try env (config_url config) lockHolder of
                     (r, evs) \<Rightarrow> (catch_push r, evs, release (unlock_env env) lockHolder w1)))
      else (case push_try env (config_url config) lockHolder of
              (r, evs) \<Rightarrow> (catch_push r, evs, w)))"

text \<open>The calls that write to the remote store.\<close>

fun remote_write :: "event \<Rightarrow> bool" where
  "remote_write (Call_putFile p c) = True"
| "remote_write (Call_deleteFile p) = True"
| "remote_write (Call_createDirectory p) = True"
| "remote_write (Call_cleanOldBackups n) = True"
| "remote_write e = False"

text \<open>The calls that add or remove files of the remote store.\<close>

fun touches_files :: "event \<Rightarrow> bool" where
  "touches_files (Call_putFile p c) = True"
| "touches_files (Call_deleteFile p) = True"
| "touches_files (Call_cleanOldBackups n) = True"
| "touches_files e = False"

text \<open>
  The condition of line 219 as \<open>smartPush\<close> reads it: a last-backup-file record exists
  and the current time is within the configured interval of its \<open>createdAt\<close>; and the
  file path that record names.
\<close>

definition in_replace_window :: "push_env \<Rightarrow> bool" where
  "in_replace_window env =
     (case getBackupFileInterval env of
        Inl e \<Rightarrow> False
      | Inr backupIntervalMinutes \<Rightarrow>
          (case getLastBackupFileInfo env of
             Inl e \<Rightarrow> False
           | Inr lastBackupInfo \<Rightarrow>
               (case lastBackupInfo of
                  None \<Rightarrow> False
                | Some info \<Rightarrow> Date_now env - createdAt info < backupIntervalMinutes * 60 * 1000)))"

definition recorded_file :: "push_env \<Rightarrow> string option" where
  "recorded_file env =
     (case getLastBackupFileInfo env of
        Inl e \<Rightarrow> None
      | Inr lastBackupInfo \<Rightarrow> (case lastBackupInfo of None \<Rightarrow> None | Some info \<Rightarrow> Some (filePath info)))"

text \<open>
  The files of the backup directory after a run of calls, from the files \<open>R\<close> before
  it: \<open>putFile\<close> adds its path, \<open>deleteFile\<close> removes its path, \<open>cleanOldBackups\<close>
  removes the expired files \<open>X\<close>.
\<close>

fun apply_event :: "string set \<Rightarrow> event \<Rightarrow> string set \<Rightarrow> string set" where
  "apply_event X (Call_putFile p c) R = insert p R"
| "apply_event X (Call_deleteFile p) R = R - {p}"
| "apply_event X (Call_cleanOldBackups n) R = R - X"
| "apply_event X e R = R"

fun files_after :: "string set \<Rightarrow> event list \<Rightarrow> string set \<Rightarrow> string set" where
  "files_after X [] R = R"
| "files_after X (e # es) R = files_after X es (apply_event X e R)"

text \<open>The trace of an execution of \<open>smartPush\<close>.\<close>

definition push_trace ::
  "push_env \<Rightarrow> WebDAVConfig \<Rightarrow> string \<Rightarrow> bool \<Rightarrow> lock_storage \<times> SyncLockManager \<Rightarrow> event list"
where
  "push_trace env config lockHolder skipLock w = fst (snd (smartPush env config lockHolder skipLock w))"

section \<open>A sample execution environment\<close>

text \<open>
  The environment of the repository's push-strategy tests: one bookmark in one
  folder, no cloud backup, no recorded backup file, every call succeeding. The
  theorems below are instantiated at variations of it.
\<close>

definition sample_tree :: "BookmarkNode list" where
  "sample_tree =
     [BookmarkNode ''Folder'' None (Some [BookmarkNode ''Test'' (Some ''https://test.com'') None])]"

definition sample_backup :: "int \<Rightarrow> CloudBackup" where
  "sample_backup t =
     \<lparr>metadata = Some \<lparr>meta_timestamp = t, clientVersion = ''1.0.0''\<rparr>, data = Some sample_tree\<rparr>"

definition sample_config :: WebDAVConfig where
  "sample_config = \<lparr>config_url = ''https://dav.example.com'', username = ''user'', password = ''pass''\<rparr>"

definition sample_acquire_env :: acquire_env where
  "sample_acquire_env =
     \<lparr>get_rejects = False, now_check = 100000, now_id = 100000, now_stamp = 100000,
      random_suffix = ''k3x9'', set_rejects = False, verify_rejects = False\<rparr>"

definition sample_env :: push_env where
  "sample_env =
     \<lparr>onLine = True,
      lock_env = sample_acquire_env,
      unlock_env = \<lparr>read_rejects = False, remove_rejects = False\<rparr>,
      getTree = Inr sample_tree,
      createSnapshot = Inr (),
      getLatestBackupFile = Inr None,
      getFileWithDedup = (\<lambda>p. Inr None),
      JSON_parse = (\<lambda>j. Inl (Error (Text ''SyntaxError''))),
      countBookmarks_undefined = Inl (Error (Text ''TypeError'')),
      getLastSyncTime = (\<lambda>u. Inr 0),
      compareWithCloud = (\<lambda>t c. Inr False),
      browserName = ''Chrome'',
      parsedBrowser = (\<lambda>f. None),
      isSameBrowser = (\<lambda>a b. False),
      setSyncState = (\<lambda>t. Inr ()),
      createCloudBackup = Inr (Some (sample_backup 100000)),
      exists_dir = (\<lambda>d. True),
      createDirectory = (\<lambda>d. Inr ()),
      getBackupFileInterval = Inr 1,
      getLastBackupFileInfo = Inr None,
      Date_now = 100000,
      generateBackupFileName =
        (\<lambda>b n r. if r = 1 then ''bookmarks_20260206_120000_chrome_1_v1.json''
                 else ''bookmarks_20260206_120000_chrome_1_v2.json''),
      compressBackup = (\<lambda>b. Inr ''H4sIAAAA''),
      putFile = (\<lambda>p c. Inr ()),
      deleteFile = (\<lambda>p. Inr ()),
      saveLastBackupFileInfo = (\<lambda>i. Inr ()),
      cleanOldBackups = Inr (),
      clearBackupListCache = Inr ()\<rparr>"

text \<open>The same, with a cloud backup of time \<open>t\<close> and a last sync at time \<open>l\<close>.\<close>

definition sample_env_cloud :: "int \<Rightarrow> int \<Rightarrow> push_env" where
  "sample_env_cloud t l =
     sample_env
       \<lparr>getLatestBackupFile := Inr (Some ''BookmarkSyncer/backup.json.gz''),
        getFileWithDedup := (\<lambda>p. Inr (Some ''{}'')),
        JSON_parse := (\<lambda>j. Inr (Some (sample_backup t))),
        getLastSyncTime := (\<lambda>u. Inr l)\<rparr>"

text \<open>
  The same as \<open>sample_env\<close>, with a backup file recorded 30 seconds ago (the interval is
  one minute) and a \<open>deleteFile\<close> that fails.
\<close>

definition sample_env_replace :: push_env where
  "sample_env_replace =
     sample_env
       \<lparr>getLastBackupFileInfo :=
          Inr (Some \<lparr>fileName = ''old_backup.json.gz'', filePath = ''BookmarkSyncer/old_backup.json.gz'',
                     createdAt = 70000, revisionNumber = 1\<rparr>),
        deleteFile := (\<lambda>p. Inl (Error (Text ''Failed to delete file: 500'')))\<rparr>"

text \<open>
  The same as \<open>sample_env_cloud\<close>, with a comparison that finds the contents identical
  and a browser check of the given result.
\<close>

definition sample_env_identical :: "int \<Rightarrow> int \<Rightarrow> bool \<Rightarrow> push_env" where
  "sample_env_identical t l same =
     (sample_env_cloud t l)\<lparr>compareWithCloud := (\<lambda>tree c. Inr True), isSameBrowser := (\<lambda>a b. same)\<rparr>"

section \<open>Concurrent calls of acquire\<close>

text \<open>
  \<open>acquire\<close> touches the storage three times, each time behind an \<open>await\<close>: the read
  of line 25, the write of line 56 and the re-read of line 60. Between them other
  callers run. A call in progress is at one of these three points or has returned;
  \<open>step_call\<close> runs it up to its next storage access. Two calls on one storage are
  interleaved by a schedule that names, step after step, the call that moves.
\<close>

datatype acquire_pc = AtRead | AtWrite | AtVerify | Returned bool

record acquire_call =
  call_holder :: string
  call_env :: acquire_env
  call_instance :: SyncLockManager
  call_pc :: acquire_pc

definition start_call :: "string \<Rightarrow> acquire_env \<Rightarrow> SyncLockManager \<Rightarrow> acquire_call" where
  "start_call hld env m = \<lparr>call_holder = hld, call_env = env, call_instance = m, call_pc = AtRead\<rparr>"

fun step_call :: "acquire_call \<Rightarrow> lock_storage \<Rightarrow> acquire_call \<times> lock_storage" where
  "step_call c st =
     (case call_pc c of
        AtRead \<Rightarrow>
          if acquire_check (call_env c) st then (c\<lparr>call_pc := AtWrite\<rparr>, st)
          else (c\<lparr>call_pc := Returned False\<rparr>, st)
      | AtWrite \<Rightarrow>
          if set_rejects (call_env c) then (c\<lparr>call_pc := Returned False\<rparr>, st)
          else (c\<lparr>call_pc := AtVerify\<rparr>, Some (newLock (call_env c) (call_holder c)))
      | AtVerify \<Rightarrow>
          if acquire_verify (call_env c) (call_holder c) st
          then (c\<lparr>call_pc := Returned True,
                  call_instance := (call_instance c)
                    \<lparr>activeLockId := Some (fresh_lockId (call_env c) (call_holder c))\<rparr>\<rparr>, st)
          else (c\<lparr>call_pc := Returned False\<rparr>, st)
      | Returned b \<Rightarrow> (c, st))"

datatype caller = CallerA | CallerB

record two_calls =
  stored :: lock_storage
  callA :: acquire_call
  callB :: acquire_call

fun step :: "caller \<Rightarrow> two_calls \<Rightarrow> two_calls" where
  "step CallerA s = (case step_call (callA s) (stored s) of (c, st) \<Rightarrow> s\<lparr>stored := st, callA := c\<rparr>)"
| "step CallerB s = (case step_call (callB s) (stored s) of (c, st) \<Rightarrow> s\<lparr>stored := st, callB := c\<rparr>)"

fun run :: "caller list \<Rightarrow> two_calls \<Rightarrow> two_calls" where
  "run [] s = s"
| "run (x # xs) s = run xs (step x s)"

fun this_call :: "caller \<Rightarrow> two_calls \<Rightarrow> acquire_call" where
  "this_call CallerA s = callA s"
| "this_call CallerB s = callB s"

fun other_call :: "caller \<Rightarrow> two_calls \<Rightarrow> acquire_call" where
  "other_call CallerA s = callB s"
| "other_call CallerB s = callA s"

text \<open>
  A call's write has landed, or the call has returned without writing. A schedule
  is settled when every re-read takes place after the other call's write has landed:
  what the settle delay of line 59 is there for.
\<close>

definition written :: "acquire_call \<Rightarrow> bool" where
  "written c = (call_pc c \<noteq> AtRead \<and> call_pc c \<noteq> AtWrite)"

fun settled :: "caller list \<Rightarrow> two_calls \<Rightarrow> bool" where
  "settled [] s = True"
| "settled (x # xs) s =
     ((if call_pc (this_call x s) = AtVerify then written (other_call x s) else True)
      \<and> settled xs (step x s))"

definition call_lockId :: "acquire_call \<Rightarrow> string" where
  "call_lockId c = fresh_lockId (call_env c) (call_holder c)"

definition holds :: "acquire_call \<Rightarrow> lock_storage \<Rightarrow> bool" where
  "holds c st = (case st of None \<Rightarrow> False | Some l \<Rightarrow> lockId l = call_lockId c)"

definition race_inv :: "two_calls \<Rightarrow> bool" where
  "race_inv s =
     ((if call_pc (callA s) = Returned True then holds (callA s) (stored s) \<and> written (callB s) else True)
      \<and> (if call_pc (callB s) = Returned True then holds (callB s) (stored s) \<and> written (callA s) else True))"

text \<open>Two calls start together on an empty storage.\<close>

definition race_start :: two_calls where
  "race_start =
     \<lparr>stored = None,
      callA = start_call ''auto-sync'' sample_acquire_env new_SyncLockManager,
      callB = start_call ''manual'' sample_acquire_env new_SyncLockManager\<rparr>"

section \<open>Compression (infrastructure/utils/compression.ts)\<close>

text \<open>
  A JavaScript string is its list of UTF-16 code units; a \<open>Uint8Array\<close> is a list of
  bytes. The binary string handed to \<open>btoa\<close> has one character for each byte, so it
  is a \<open>string\<close>, as is the Base64 text.

  The functions of the platform that the file calls are not part of the repository.
  \<open>CompressionStream\<close> and \<open>DecompressionStream\<close> are parameters: the chunks read
  from the compressing stream for the bytes enqueued, and the chunks read from the
  decompressing stream or the error of a failed read. So is the greatest number of
  arguments that the engine accepts in one call of \<open>String.fromCharCode.apply\<close>,
  which throws a \<open>RangeError\<close> beyond it. \<open>btoa\<close>, \<open>atob\<close>, \<open>TextEncoder\<close> and \<open>TextDecoder\<close>
  follow their standards (forgiving Base64 of the Infra Standard, the UTF-8 encoder
  and decoder of the Encoding Standard).
\<close>

type_synonym byte = "8 word"
type_synonym js_string = "nat list"

record platform =
  gzip_stream :: "byte list \<Rightarrow> byte list list"
  gunzip_stream :: "byte list \<Rightarrow> exn + byte list list"
  max_arguments :: nat

subsection \<open>String.fromCharCode, charCodeAt\<close>

definition fromCharCode_apply :: "platform \<Rightarrow> byte list \<Rightarrow> exn + string" where
  "fromCharCode_apply P codes =
     (if length codes > max_arguments P then Inl (Error RangeError)
      else Inr (map (\<lambda>b. char_of (unat b)) codes))"

definition charCodeAt :: "string \<Rightarrow> nat \<Rightarrow> nat" where
  "charCodeAt s i = of_char (s ! i)"

subsection \<open>btoa, atob\<close>

definition base64_char :: "nat \<Rightarrow> char" where
  "base64_char n =
     (if n < 26 then char_of (65 + n)
      else if n < 52 then char_of (97 + (n - 26))
      else if n < 62 then char_of (48 + (n - 52))
      else if n = 62 then CHR ''+'' else CHR ''/'')"

definition base64_value :: "char \<Rightarrow> nat option" where
  "base64_value c =
     (let k = (of_char c :: nat)
      in if 65 \<le> k \<and> k \<le> 90 then Some (k - 65)
         else if 97 \<le> k \<and> k \<le> 122 then Some (k - 97 + 26)
         else if 48 \<le> k \<and> k \<le> 57 then Some (k - 48 + 52)
         else if c = CHR ''+'' then Some 62
         else if c = CHR ''/'' then Some 63
         else None)"

text \<open>Three bytes give four 6-bit values; a last group of one or two bytes gives two or three.\<close>

fun sextets :: "nat list \<Rightarrow> nat list" where
  "sextets (a # b # c # bs) =
     [a div 4, (a mod 4) * 16 + b div 16, (b mod 16) * 4 + c div 64, c mod 64] @ sextets bs"
| "sextets [a, b] = [a div 4, (a mod 4) * 16 + b div 16, (b mod 16) * 4]"
| "sextets [a] = [a div 4, (a mod 4) * 16]"
| "sextets [] = []"

definition padding :: "nat \<Rightarrow> nat" where
  "padding n = (if n mod 3 = 1 then 2 else if n mod 3 = 2 then 1 else 0)"

definition btoa :: "string \<Rightarrow> string" where
  "btoa binary =
     map base64_char (sextets (map of_char binary)) @ replicate (padding (length binary)) CHR ''=''"

fun octets :: "nat list \<Rightarrow> nat list" where
  "octets (a # b # c # d # ss) =
     [a * 4 + b div 16, (b mod 16) * 16 + c div 4, (c mod 4) * 64 + d] @ octets ss"
| "octets [a, b, c] = [a * 4 + b div 16, (b mod 16) * 16 + c div 4]"
| "octets [a, b] = [a * 4 + b div 16]"
| "octets ss = []"

definition ascii_whitespace :: "char \<Rightarrow> bool" where
  "ascii_whitespace c = (of_char c \<in> {9, 10, 12, 13, 32 :: nat})"

definition strip_padding :: "string \<Rightarrow> string" where
  "strip_padding s =
     (if length s mod 4 = 0 then
        (if length s \<ge> 2 \<and> s ! (length s - 1) = CHR ''='' \<and> s ! (length s - 2) = CHR ''=''
         then take (length s - 2) s
         else if length s \<ge> 1 \<and> s ! (length s - 1) = CHR ''=''
         then take (length s - 1) s
         else s)
      else s)"

text \<open>\<open>atob\<close> throws on a text that is not Base64: the result is \<open>None\<close>.\<close>

definition atob :: "string \<Rightarrow> string option" where
  "atob encoded =
     (let s = strip_padding (filter (\<lambda>c. \<not> ascii_whitespace c) encoded)
      in if length s mod 4 = 1 then None
         else if \<not> list_all (\<lambda>c. base64_value c \<noteq> None) s then None
         else Some (map char_of (octets (map (\<lambda>c. the (base64_value c)) s))))"

text \<open>
  A valid Base64 string: a multiple of four characters, all of the alphabet once at
  most two closing \<open>=\<close> are taken off.
\<close>

definition valid_base64 :: "string \<Rightarrow> bool" where
  "valid_base64 s = (length s mod 4 = 0 \<and> list_all (\<lambda>c. base64_value c \<noteq> None) (strip_padding s))"

subsection \<open>TextEncoder, TextDecoder\<close>

text \<open>
  The encoder first reads the code units as scalar values: a surrogate pair is one
  scalar value, a surrogate with no partner becomes U+FFFD.
\<close>

fun to_scalar_values :: "js_string \<Rightarrow> nat list" where
  "to_scalar_values [] = []"
| "to_scalar_values [c] = (if 0xD800 \<le> c \<and> c \<le> 0xDFFF then [0xFFFD] else [c])"
| "to_scalar_values (c # d # cs) =
     (if 0xD800 \<le> c \<and> c \<le> 0xDBFF then
        (if 0xDC00 \<le> d \<and> d \<le> 0xDFFF
         then (0x10000 + (c - 0xD800) * 0x400 + (d - 0xDC00)) # to_scalar_values cs
         else 0xFFFD # to_scalar_values (d # cs))
      else if 0xDC00 \<le> c \<and> c \<le> 0xDFFF then 0xFFFD # to_scalar_values (d # cs)
      else c # to_scalar_values (d # cs))"

definition utf8_bytes :: "nat \<Rightarrow> nat list" where
  "utf8_bytes cp =
     (if cp < 0x80 then [cp]
      else if cp < 0x800 then [0xC0 + cp div 0x40, 0x80 + cp mod 0x40]
      else if cp < 0x10000 then [0xE0 + cp div 0x1000, 0x80 + cp div 0x40 mod 0x40, 0x80 + cp mod 0x40]
      else [0xF0 + cp div 0x40000, 0x80 + cp div 0x1000 mod 0x40, 0x80 + cp div 0x40 mod 0x40,
            0x80 + cp mod 0x40])"

definition TextEncoder_encode :: "js_string \<Rightarrow> byte list" where
  "TextEncoder_encode text = map of_nat (concat (map utf8_bytes (to_scalar_values text)))"

record utf8_state =
  code_point :: nat
  bytes_seen :: nat
  bytes_needed :: nat
  lower_boundary :: nat
  upper_boundary :: nat

definition utf8_start :: utf8_state where
  "utf8_start = \<lparr>code_point = 0, bytes_seen = 0, bytes_needed = 0,
                  lower_boundary = 0x80, upper_boundary = 0xBF\<rparr>"

text \<open>One byte read with no sequence in progress.\<close>

definition utf8_lead :: "nat \<Rightarrow> nat list \<times> utf8_state" where
  "utf8_lead b =
     (if b \<le> 0x7F then ([b], utf8_start)
      else if 0xC2 \<le> b \<and> b \<le> 0xDF
      then ([], utf8_start\<lparr>bytes_needed := 1, code_point := b mod 0x20\<rparr>)
      else if 0xE0 \<le> b \<and> b \<le> 0xEF
      then ([], utf8_start\<lparr>bytes_needed := 2, code_point := b mod 0x10,
                  lower_boundary := (if b = 0xE0 then 0xA0 else 0x80),
                  upper_boundary := (if b = 0xED then 0x9F else 0xBF)\<rparr>)
      else if 0xF0 \<le> b \<and> b \<le> 0xF4
      then ([], utf8_start\<lparr>bytes_needed := 3, code_point := b mod 0x08,
                  lower_boundary := (if b = 0xF0 then 0x90 else 0x80),
                  upper_boundary := (if b = 0xF4 then 0x8F else 0xBF)\<rparr>)
      else ([0xFFFD], utf8_start))"

text \<open>
  One byte read: the code points emitted and the next state. A byte outside the
  boundaries ends the sequence in progress with U+FFFD and is read again with no
  sequence in progress.
\<close>

definition utf8_step :: "utf8_state \<Rightarrow> nat \<Rightarrow> nat list \<times> utf8_state" where
  "utf8_step st b =
     (if bytes_needed st = 0 then utf8_lead b
      else if \<not> (lower_boundary st \<le> b \<and> b \<le> upper_boundary st)
      then (case utf8_lead b of (out, st') \<Rightarrow> (0xFFFD # out, st'))
      else (let cp = code_point st * 0x40 + b mod 0x40
            in if bytes_seen st + 1 \<noteq> bytes_needed st
               then ([], st\<lparr>code_point := cp, bytes_seen := bytes_seen st + 1,
                           lower_boundary := 0x80, upper_boundary := 0xBF\<rparr>)
               else ([cp], utf8_start)))"

fun utf8_decode :: "utf8_state \<Rightarrow> nat list \<Rightarrow> nat list" where
  "utf8_decode st [] = (if bytes_needed st \<noteq> 0 then [0xFFFD] else [])"
| "utf8_decode st (b # bs) = (case utf8_step st b of (out, st') \<Rightarrow> out @ utf8_decode st' bs)"

text \<open>
  \<open>new TextDecoder()\<close> is a UTF-8 decoder that does not ignore the byte order mark: a
  first code point U+FEFF is not part of its output.
\<close>

definition strip_BOM :: "nat list \<Rightarrow> nat list" where
  "strip_BOM cps = (case cps of [] \<Rightarrow> [] | cp # rest \<Rightarrow> if cp = 0xFEFF then rest else cps)"

definition utf16_units :: "nat \<Rightarrow> nat list" where
  "utf16_units cp =
     (if cp < 0x10000 then [cp]
      else [0xD800 + (cp - 0x10000) div 0x400, 0xDC00 + (cp - 0x10000) mod 0x400])"

definition TextDecoder_decode :: "byte list \<Rightarrow> js_string" where
  "TextDecoder_decode bytes =
     concat (map utf16_units (strip_BOM (utf8_decode utf8_start (map unat bytes))))"

text \<open>
  A scalar value is a code point that is no surrogate. A string is well formed when
  every surrogate in it is half of a pair, high before low.
\<close>

definition scalar_value :: "nat \<Rightarrow> bool" where
  "scalar_value cp = (cp < 0xD800 \<or> (0xDFFF < cp \<and> cp < 0x110000))"

fun well_formed :: "js_string \<Rightarrow> bool" where
  "well_formed [] = True"
| "well_formed [c] = (c < 0xD800 \<or> (0xDFFF < c \<and> c < 0x10000))"
| "well_formed (c # d # cs) =
     (if 0xD800 \<le> c \<and> c \<le> 0xDBFF then 0xDC00 \<le> d \<and> d \<le> 0xDFFF \<and> well_formed cs
      else (c < 0xD800 \<or> (0xDFFF < c \<and> c < 0x10000)) \<and> well_formed (d # cs))"

subsection \<open>uint8ArrayToBase64, compressText, decompressText\<close>

definition chunkSize :: nat where
  "chunkSize = 8192"

text \<open>
  The loop of \<open>uint8ArrayToBase64\<close>, from index \<open>i\<close> with the binary string built so
  far: \<open>subarray (i, min (i + chunkSize) length)\<close> goes to \<open>String.fromCharCode.apply\<close>.
\<close>

function chunk_loop :: "platform \<Rightarrow> byte list \<Rightarrow> nat \<Rightarrow> string \<Rightarrow> exn + string" where
  "chunk_loop P bytes i binary =
     (if i < length bytes then
        (case fromCharCode_apply P (take (min (i + chunkSize) (length bytes) - i) (drop i bytes)) of
           Inl e \<Rightarrow> Inl e
         | Inr piece \<Rightarrow> chunk_loop P bytes (i + chunkSize) (binary @ piece))
      else Inr binary)"
  by pat_completeness auto
termination
  by (relation "measure (\<lambda>(P, bytes, i, binary). length bytes - i)") (auto simp add: chunkSize_def)

declare chunk_loop.simps [simp del]

definition uint8ArrayToBase64 :: "platform \<Rightarrow> byte list \<Rightarrow> exn + string" where
  "uint8ArrayToBase64 P bytes =
     (case chunk_loop P bytes 0 [] of Inl e \<Rightarrow> Inl e | Inr binary \<Rightarrow> Inr (btoa binary))"

text \<open>
  The chunks read from a stream are copied into one array of their total length:
  \<open>result.set (chunk, offset)\<close> throws a \<open>RangeError\<close> if the chunk does not fit.
\<close>

fun set_chunks :: "byte list \<Rightarrow> nat \<Rightarrow> byte list list \<Rightarrow> exn + byte list" where
  "set_chunks result offset [] = Inr result"
| "set_chunks result offset (chunk # chunks) =
     (if offset + length chunk > length result then Inl (Error RangeError)
      else set_chunks (take offset result @ chunk @ drop (offset + length chunk) result)
             (offset + length chunk) chunks)"

definition merge_chunks :: "byte list list \<Rightarrow> exn + byte list" where
  "merge_chunks chunks =
     (let totalLength = foldl (\<lambda>acc chunk. acc + length chunk) 0 chunks
      in set_chunks (replicate totalLength 0) 0 chunks)"

definition compressText :: "platform \<Rightarrow> js_string \<Rightarrow> exn + string" where
  "compressText P text =
     (let data = TextEncoder_encode text;
          chunks = gzip_stream P data
      in case merge_chunks chunks of
           Inl e \<Rightarrow> Inl e
         | Inr result \<Rightarrow> uint8ArrayToBase64 P result)"

definition decompressText :: "platform \<Rightarrow> string \<Rightarrow> exn + js_string" where
  "decompressText P base64Data =
     (case atob base64Data of
        None \<Rightarrow> Inl (Error Base64DecodeFailed)
      | Some binaryString \<Rightarrow>
          (let bytes = map (\<lambda>i. of_nat (charCodeAt binaryString i)) [0..<length binaryString]
           in case gunzip_stream P bytes of
                Inl e \<Rightarrow> Inl e
              | Inr chunks \<Rightarrow>
                  (case merge_chunks chunks of
                     Inl e \<Rightarrow> Inl e
                   | Inr result \<Rightarrow> Inr (TextDecoder_decode result))))"

text \<open>
  What the file expects of the two streams: decompressing what compressing the bytes
  produced gives the bytes back.
\<close>

definition streams_invert :: "platform \<Rightarrow> byte list \<Rightarrow> bool" where
  "streams_invert P input =
     (case gunzip_stream P (concat (gzip_stream P input)) of
        Inl e \<Rightarrow> False
      | Inr chunks \<Rightarrow> concat chunks = input)"

definition binary_string :: "byte list \<Rightarrow> string" where
  "binary_string bytes = map (\<lambda>b. char_of (unat b)) bytes"

text \<open>
  A platform to run the two functions on: its streams pass the bytes through in one
  chunk (the file does not look into the compressed bytes), and its engine accepts
  65535 arguments.
\<close>

definition identity_streams :: platform where
  "identity_streams =
     \<lparr>gzip_stream = (\<lambda>input. [input]), gunzip_stream = (\<lambda>input. Inr [input]),
      max_arguments = 65535\<rparr>"

section \<open>Properties of the sync lock\<close>

lemma fresh_lockId_not_empty: "fresh_lockId env hld \<noteq> []"
  by (simp add: fresh_lockId_def)

lemma instance_ok_new: "instance_ok new_SyncLockManager"
  by (simp add: instance_ok_def new_SyncLockManager_def)

lemma instance_ok_acquire:
  assumes "instance_ok m"
  shows "instance_ok (snd (snd (acquire env hld (st, m))))"
  using assms
  by (simp add: acquire_def instance_ok_def fresh_lockId_not_empty Let_def)

lemma instance_ok_release:
  assumes "instance_ok m"
  shows "instance_ok (snd (release env hld (st, m)))"
  using assms
  by (simp add: release_def instance_ok_def split: option.splits)


text \<open>
  C1. \<open>release hld\<close> leaves the stored lock record as it is when the instance remembers
  a lockId other than the stored one, when the stored holder is not \<open>hld\<close>, and when
  there is no record. It removes the record only when the holder matches and the
  remembered lockId is absent or equal to the stored one. The instance is any that
  \<open>new\<close>, \<open>acquire\<close> and \<open>release\<close> can produce (\<open>instance_ok\<close>).
\<close>

theorem release_leaves_lock_unless_owner:
  assumes ok: "instance_ok m"
  shows "(\<forall>l a. st = Some l \<and> holder l = hld \<and> activeLockId m = Some a \<and> a \<noteq> lockId l
            \<longrightarrow> fst (release env hld (st, m)) = st)
       \<and> (\<forall>l. st = Some l \<and> holder l \<noteq> hld \<longrightarrow> fst (release env hld (st, m)) = st)
       \<and> (st = None \<longrightarrow> fst (release env hld (st, m)) = None)
       \<and> (\<forall>l. st = Some l \<and> fst (release env hld (st, m)) = None
            \<longrightarrow> holder l = hld \<and> (activeLockId m = None \<or> activeLockId m = Some (lockId l)))"
proof (intro conjI allI impI)
  fix l a
  assume h: "st = Some l \<and> holder l = hld \<and> activeLockId m = Some a \<and> a \<noteq> lockId l"
  with ok have "truthy (activeLockId m)"
    by (simp add: instance_ok_def truthy_def)
  with h show "fst (release env hld (st, m)) = st"
    by (auto simp add: release_def)
next
  fix l
  assume "st = Some l \<and> holder l \<noteq> hld"
  then show "fst (release env hld (st, m)) = st"
    by (simp add: release_def)
next
  assume "st = None"
  then show "fst (release env hld (st, m)) = None"
    by (simp add: release_def)
next
  fix l
  assume h: "st = Some l \<and> fst (release env hld (st, m)) = None"
  then show "holder l = hld"
    by (auto simp add: release_def split: if_splits)
next
  fix l
  assume h: "st = Some l \<and> fst (release env hld (st, m)) = None"
  show "activeLockId m = None \<or> activeLockId m = Some (lockId l)"
  proof (cases "activeLockId m")
    case None
    then show ?thesis by simp
  next
    case (Some a)
    with ok have "truthy (activeLockId m)"
      by (simp add: instance_ok_def truthy_def)
    with h Some show ?thesis
      by (auto simp add: release_def split: if_splits)
  qed
qed

theorem release_leaves_lock_unless_owner_witness:
  "instance_ok \<lparr>activeLockId = Some ''auto-sync_1000_old''\<rparr>
   \<and> fst (release \<lparr>read_rejects = False, remove_rejects = False\<rparr> ''auto-sync''
        (Some \<lparr>holder = ''auto-sync'', timestamp = 62000, lockId = ''auto-sync_62000_new''\<rparr>,
         \<lparr>activeLockId = Some ''auto-sync_1000_old''\<rparr>))
     = Some \<lparr>holder = ''auto-sync'', timestamp = 62000, lockId = ''auto-sync_62000_new''\<rparr>"
proof -
  have ok: "instance_ok \<lparr>activeLockId = Some ''auto-sync_1000_old''\<rparr>"
    by (simp add: instance_ok_def)
  show ?thesis
    using ok release_leaves_lock_unless_owner [OF ok,
      of "Some \<lparr>holder = ''auto-sync'', timestamp = 62000, lockId = ''auto-sync_62000_new''\<rparr>"
         "''auto-sync''" "\<lparr>read_rejects = False, remove_rejects = False\<rparr>"]
    by simp
qed

text \<open>
  C2. A stored lock younger than the timeout makes \<open>acquire\<close> return false and leaves
  the storage (and the instance) as they were. A stored lock at least as old as the
  timeout is overwritten: when no storage call rejects, \<open>acquire\<close> returns true, the
  storage holds the new lock and the instance remembers its lockId, with no
  \<open>release\<close> of the old lock.
\<close>

theorem acquire_respects_timeout:
  "(\<forall>l. st = Some l \<and> now_check env - timestamp l < LOCK_TIMEOUT_MS
        \<longrightarrow> acquire env hld (st, m) = (False, st, m))
   \<and> (\<forall>l. st = Some l \<and> LOCK_TIMEOUT_MS \<le> now_check env - timestamp l \<and> quiet_acquire env
        \<longrightarrow> acquire env hld (st, m)
            = (True, Some (newLock env hld), m\<lparr>activeLockId := Some (fresh_lockId env hld)\<rparr>))"
proof (intro conjI allI impI)
  fix l
  assume "st = Some l \<and> now_check env - timestamp l < LOCK_TIMEOUT_MS"
  then have "\<not> acquire_check env st"
    by (simp add: acquire_check_def)
  then show "acquire env hld (st, m) = (False, st, m)"
    by (simp add: acquire_def)
next
  fix l
  assume h: "st = Some l \<and> LOCK_TIMEOUT_MS \<le> now_check env - timestamp l \<and> quiet_acquire env"
  then have c: "acquire_check env st"
    by (simp add: acquire_check_def quiet_acquire_def)
  from h have v: "acquire_verify env hld (Some (newLock env hld))"
    by (simp add: acquire_verify_def quiet_acquire_def newLock_def)
  from h c v show "acquire env hld (st, m)
      = (True, Some (newLock env hld), m\<lparr>activeLockId := Some (fresh_lockId env hld)\<rparr>)"
    by (simp add: acquire_def quiet_acquire_def Let_def)
qed

theorem acquire_respects_timeout_witness:
  "acquire \<lparr>get_rejects = False, now_check = 59999, now_id = 59999, now_stamp = 59999,
            random_suffix = ''k3x'', set_rejects = False, verify_rejects = False\<rparr> ''manual''
      (Some \<lparr>holder = ''auto-sync'', timestamp = 0, lockId = ''auto-sync_0_abc''\<rparr>, new_SyncLockManager)
    = (False, Some \<lparr>holder = ''auto-sync'', timestamp = 0, lockId = ''auto-sync_0_abc''\<rparr>,
       new_SyncLockManager)
   \<and> fst (acquire \<lparr>get_rejects = False, now_check = 60000, now_id = 60000, now_stamp = 60000,
            random_suffix = ''k3x'', set_rejects = False, verify_rejects = False\<rparr> ''manual''
      (Some \<lparr>holder = ''auto-sync'', timestamp = 0, lockId = ''auto-sync_0_abc''\<rparr>, new_SyncLockManager))"
  using acquire_respects_timeout
    [of "Some \<lparr>holder = ''auto-sync'', timestamp = 0, lockId = ''auto-sync_0_abc''\<rparr>"
        "\<lparr>get_rejects = False, now_check = 59999, now_id = 59999, now_stamp = 59999,
            random_suffix = ''k3x'', set_rejects = False, verify_rejects = False\<rparr>"
        "''manual''" new_SyncLockManager]
    acquire_respects_timeout
    [of "Some \<lparr>holder = ''auto-sync'', timestamp = 0, lockId = ''auto-sync_0_abc''\<rparr>"
        "\<lparr>get_rejects = False, now_check = 60000, now_id = 60000, now_stamp = 60000,
            random_suffix = ''k3x'', set_rejects = False, verify_rejects = False\<rparr>"
        "''manual''" new_SyncLockManager]
  by (simp add: LOCK_TIMEOUT_MS_def quiet_acquire_def)

text \<open>
  C10. A \<open>release\<close> that takes the lockId-mismatch branch resets the remembered lockId
  and leaves the stored record in place; the next \<open>release\<close> of the same holder by the
  same instance then checks the holder only and removes that record.
\<close>

theorem release_after_refusal_removes_lock:
  assumes "st = Some l" and "holder l = hld"
    and "truthy (activeLockId m)" and "activeLockId m \<noteq> Some (lockId l)"
    and "\<not> read_rejects env1" and "quiet_release env2"
  shows "release env1 hld (st, m) = (st, m\<lparr>activeLockId := None\<rparr>)
       \<and> release env2 hld (release env1 hld (st, m)) = (None, m\<lparr>activeLockId := None\<rparr>)"
proof -
  have first: "release env1 hld (st, m) = (st, m\<lparr>activeLockId := None\<rparr>)"
    using assms by (auto simp add: release_def)
  have "release env2 hld (st, m\<lparr>activeLockId := None\<rparr>) = (None, m\<lparr>activeLockId := None\<rparr>)"
    using assms by (simp add: release_def quiet_release_def truthy_def)
  with first show ?thesis by simp
qed

theorem release_after_refusal_removes_lock_witness:
  "release \<lparr>read_rejects = False, remove_rejects = False\<rparr> ''auto-sync''
     (release \<lparr>read_rejects = False, remove_rejects = False\<rparr> ''auto-sync''
        (Some \<lparr>holder = ''auto-sync'', timestamp = 62000, lockId = ''auto-sync_62000_new''\<rparr>,
         \<lparr>activeLockId = Some ''auto-sync_1000_old''\<rparr>))
   = (None, \<lparr>activeLockId = None\<rparr>)"
  using release_after_refusal_removes_lock
    [of "Some \<lparr>holder = ''auto-sync'', timestamp = 62000, lockId = ''auto-sync_62000_new''\<rparr>"
        "\<lparr>holder = ''auto-sync'', timestamp = 62000, lockId = ''auto-sync_62000_new''\<rparr>"
        "''auto-sync''" "\<lparr>activeLockId = Some ''auto-sync_1000_old''\<rparr>"
        "\<lparr>read_rejects = False, remove_rejects = False\<rparr>"
        "\<lparr>read_rejects = False, remove_rejects = False\<rparr>"]
  by (simp add: truthy_def quiet_release_def release_def)


section \<open>Properties of the directory listing\<close>

lemma listFiles_never_throws: "\<exists>files. listFiles env = Inr files"
  by (simp add: listFiles_def split: sum.splits)

lemma listFiles_not_found: "fetch env = Inr r \<Longrightarrow> status r = 404 \<Longrightarrow> listFiles env = Inr []"
  by (simp add: listFiles_def listFiles_try_def)

lemma listFiles_other_failure:
  "fetch env = Inr r \<Longrightarrow> \<not> ok r \<Longrightarrow> status r \<noteq> 207 \<Longrightarrow> listFiles env = Inr []"
  by (simp add: listFiles_def listFiles_try_def)

text \<open>
  C6. On a 401 response the \<open>try\<close> of \<open>listFiles\<close> throws the authentication error,
  and the \<open>catch\<close> around it turns the throw into the empty list: the caller receives
  \<open>[]\<close>, as for a 404.
\<close>

theorem listFiles_swallows_auth_error:
  "listFiles_try \<lparr>fetch = Inr \<lparr>status = 401, ok = False\<rparr>, parse_multistatus = Inr []\<rparr>
     = Inl (Error WebDAVAuthFailed)
   \<and> listFiles \<lparr>fetch = Inr \<lparr>status = 401, ok = False\<rparr>, parse_multistatus = Inr []\<rparr> = Inr []"
  by (simp add: listFiles_def listFiles_try_def)

section \<open>Properties of the push strategy\<close>

lemma acquire_True:
  assumes "fst (acquire env hld (st, m))"
  shows "snd (acquire env hld (st, m))
         = (Some (newLock env hld), m\<lparr>activeLockId := Some (fresh_lockId env hld)\<rparr>)"
  using assms by (simp add: acquire_def Let_def split: if_splits)

lemma release_own_lock:
  assumes "quiet_release env"
  shows "release env hld (Some (newLock aenv hld), m\<lparr>activeLockId := Some (fresh_lockId aenv hld)\<rparr>)
         = (None, m\<lparr>activeLockId := None\<rparr>)"
  using assms by (simp add: release_def quiet_release_def newLock_def)

lemma sample_acquire: "fst (acquire sample_acquire_env hld (None, new_SyncLockManager))"
  by (simp add: acquire_def acquire_check_def acquire_verify_def newLock_def sample_acquire_env_def)

lemma sample_tree_count: "countBookmarks sample_tree = 1"
  by (simp add: countBookmarks_def sample_tree_def truthy_def)

lemma push_try_empty:
  assumes "getTree env = Inr localTree" and "countBookmarks localTree = 0"
  shows "push_try env u lockHolder = (Inr (failure LocalBookmarksEmpty), [])"
  using assms by (simp add: push_try_def)

lemma push_try_reached:
  assumes "getTree env = Inr localTree" and "countBookmarks localTree \<noteq> 0"
  shows "push_try env u lockHolder
         = (case check_cloud env u lockHolder localTree of
              (Some r, evs) \<Rightarrow> (Inr r, Call_createSnapshot localTree (countBookmarks localTree) # evs)
            | (None, evs) \<Rightarrow>
                (case upload env u of
                   (r, evs') \<Rightarrow> (r, Call_createSnapshot localTree (countBookmarks localTree) # evs @ evs')))"
  using assms by (simp add: push_try_def split: sum.splits prod.splits option.splits)

lemma smartPush_past_lock:
  assumes "onLine env" and "skipLock \<or> fst (acquire (lock_env env) lockHolder w)"
  shows "fst (smartPush env config lockHolder skipLock w)
           = catch_push (fst (push_try env (config_url config) lockHolder))
       \<and> fst (snd (smartPush env config lockHolder skipLock w))
           = snd (push_try env (config_url config) lockHolder)"
  using assms by (auto simp add: smartPush_def split: prod.splits)

lemma check_cloud_reached:
  assumes "getLatestBackupFile env = Inr (Some p)" and "p \<noteq> []"
    and "getFileWithDedup env p = Inr (Some j)" and "j \<noteq> []"
    and "JSON_parse env j = Inr (Some cloudData)" and "data cloudData = Some nodes"
    and "getLastSyncTime env u = Inr lastSyncTime"
    and "valid_time (cloudTime_of cloudData)"
  shows "check_cloud env u lockHolder localTree
         = (if cloudTime_of cloudData > lastSyncTime
            then (case log_times (cloudTime_of cloudData) lastSyncTime of
                    Inl e \<Rightarrow> (None, [])
                  | Inr logged \<Rightarrow>
                      if lockHolder \<noteq> ''manual'' then (Some (failure CloudHasUpdates), [])
                      else compare_content env u lockHolder localTree p cloudData)
            else compare_content env u lockHolder localTree p cloudData)"
  using assms
  by (simp add: check_cloud_def check_times_def cloudCount_of_def toISOString_def truthy_def Let_def
      split: sum.splits)

text \<open>
  C9. When the local tree holds no URL-bearing node, \<open>smartPush\<close> fails and its trace
  is empty: nothing is written, locally or remotely. Once online and past the lock
  the failure is the empty-bookmarks one. When this call acquired the lock, the lock
  afterwards is what \<open>release\<close> makes of it, and the stored record is gone if the
  storage calls of \<open>release\<close> do not reject.
\<close>

theorem smartPush_rejects_empty_tree:
  assumes tree: "getTree env = Inr localTree" and empty: "countBookmarks localTree = 0"
  shows "\<not> success (fst (smartPush env config lockHolder skipLock (st, m)))
       \<and> fst (snd (smartPush env config lockHolder skipLock (st, m))) = []
       \<and> (onLine env \<and> (skipLock \<or> fst (acquire (lock_env env) lockHolder (st, m)))
            \<longrightarrow> fst (smartPush env config lockHolder skipLock (st, m)) = failure LocalBookmarksEmpty)
       \<and> (onLine env \<and> \<not> skipLock \<and> fst (acquire (lock_env env) lockHolder (st, m))
            \<longrightarrow> snd (snd (smartPush env config lockHolder skipLock (st, m)))
                  = release (unlock_env env) lockHolder (snd (acquire (lock_env env) lockHolder (st, m)))
              \<and> (quiet_release (unlock_env env)
                    \<longrightarrow> fst (snd (snd (smartPush env config lockHolder skipLock (st, m)))) = None))"
proof -
  have body: "push_try env (config_url config) lockHolder = (Inr (failure LocalBookmarksEmpty), [])"
    using tree empty by (rule push_try_empty)
  have a: "\<not> success (fst (smartPush env config lockHolder skipLock (st, m)))"
    by (simp add: smartPush_def body catch_push_def failure_def split: prod.splits)
  have b: "fst (snd (smartPush env config lockHolder skipLock (st, m))) = []"
    by (simp add: smartPush_def body split: prod.splits)
  have c: "fst (smartPush env config lockHolder skipLock (st, m)) = failure LocalBookmarksEmpty"
    if "onLine env \<and> (skipLock \<or> fst (acquire (lock_env env) lockHolder (st, m)))"
    using that by (auto simp add: smartPush_def body catch_push_def split: prod.splits)
  have d: "snd (snd (smartPush env config lockHolder skipLock (st, m)))
             = release (unlock_env env) lockHolder (snd (acquire (lock_env env) lockHolder (st, m)))"
    if "onLine env \<and> \<not> skipLock \<and> fst (acquire (lock_env env) lockHolder (st, m))"
    using that by (auto simp add: smartPush_def body split: prod.splits)
  have e: "fst (snd (snd (smartPush env config lockHolder skipLock (st, m)))) = None"
    if h: "onLine env \<and> \<not> skipLock \<and> fst (acquire (lock_env env) lockHolder (st, m))"
      and q: "quiet_release (unlock_env env)"
  proof -
    from h have "snd (acquire (lock_env env) lockHolder (st, m))
        = (Some (newLock (lock_env env) lockHolder),
           m\<lparr>activeLockId := Some (fresh_lockId (lock_env env) lockHolder)\<rparr>)"
      by (simp add: acquire_True)
    with d [OF h] q show ?thesis
      by (simp add: release_own_lock)
  qed
  from a b c d e show ?thesis by blast
qed

theorem smartPush_rejects_empty_tree_witness:
  "fst (smartPush (sample_env\<lparr>getTree := Inr [BookmarkNode ''Folder'' None (Some [])]\<rparr>)
          sample_config ''auto-sync'' False (None, new_SyncLockManager))
     = failure LocalBookmarksEmpty
   \<and> fst (snd (smartPush (sample_env\<lparr>getTree := Inr [BookmarkNode ''Folder'' None (Some [])]\<rparr>)
          sample_config ''auto-sync'' False (None, new_SyncLockManager))) = []
   \<and> fst (snd (snd (smartPush (sample_env\<lparr>getTree := Inr [BookmarkNode ''Folder'' None (Some [])]\<rparr>)
          sample_config ''auto-sync'' False (None, new_SyncLockManager)))) = None"
proof -
  let ?env = "sample_env\<lparr>getTree := Inr [BookmarkNode ''Folder'' None (Some [])]\<rparr>"
  have tree: "getTree ?env = Inr [BookmarkNode ''Folder'' None (Some [])]"
    by simp
  have empty: "countBookmarks [BookmarkNode ''Folder'' None (Some [])] = 0"
    by (simp add: countBookmarks_def truthy_def)
  have online: "onLine ?env" and quiet: "quiet_release (unlock_env ?env)"
    by (simp_all add: sample_env_def quiet_release_def)
  have acquired: "fst (acquire (lock_env ?env) ''auto-sync'' (None, new_SyncLockManager))"
    by (simp add: sample_env_def sample_acquire)
  from smartPush_rejects_empty_tree [OF tree empty, of sample_config "''auto-sync''" False
      None new_SyncLockManager] online quiet acquired
  show ?thesis
    by blast
qed

lemmas push_defs = smartPush_def push_try_def check_cloud_def check_times_def cloudCount_of_def
  toISOString_def valid_time_def log_times_def compare_content_def cloudBrowser_of_def
  upload_def prepare_and_write_def write_files_def finish_upload_def choose_target_def
  kept_createdAt_def catch_push_def failure_def cloudTime_of_def truthy_def endsWith_def
  last_segment_def DIR_def countBookmarks_def
  acquire_def acquire_check_def acquire_verify_def newLock_def release_def Let_def

lemmas sample_defs = sample_env_cloud_def sample_env_def sample_backup_def sample_tree_def
  sample_config_def sample_acquire_env_def new_SyncLockManager_def

text \<open>
  C4, as stated for every cloud backup that is newer than the last sync, fails when
  the look at the cloud does not come to its end: the \<open>catch\<close> of line 173 then goes
  on to the upload. Here the cloud backup carries the time 8640000000000001, one
  millisecond beyond the last time value, and the last sync was at 1000: the log
  line of line 98 throws, and the automated push uploads.
\<close>

theorem smartPush_uploads_over_newer_cloud:
  "cloudTime_of (sample_backup 8640000000000001) > 1000
   \<and> fst (smartPush (sample_env_cloud 8640000000000001 1000) sample_config ''auto-sync'' False
          (None, new_SyncLockManager))
       = \<lparr>success = True, action = Uploaded, message = UploadSucceeded\<rparr>
   \<and> push_trace (sample_env_cloud 8640000000000001 1000) sample_config ''auto-sync'' False
          (None, new_SyncLockManager)
       = [Call_createSnapshot sample_tree 1,
          Call_putFile ''BookmarkSyncer/bookmarks_20260206_120000_chrome_1_v1.json.gz'' ''H4sIAAAA'',
          Call_saveLastBackupFileInfo
            \<lparr>fileName = ''bookmarks_20260206_120000_chrome_1_v1.json.gz'',
             filePath = ''BookmarkSyncer/bookmarks_20260206_120000_chrome_1_v1.json.gz'',
             createdAt = 100000, revisionNumber = 1\<rparr>,
          Call_cleanOldBackups 3, Call_clearBackupListCache,
          Call_setSyncState Upload ''https://dav.example.com'']"
  by (simp add: push_trace_def push_defs sample_defs)

text \<open>
  C4, amended. Let the push be past the lock with a non-empty local tree, and let
  the look at the cloud come to the comparison of the times: the latest cloud backup
  is fetched and parsed and has bookmark data, the last sync time recorded for the
  configured URL is read, and both times are time values. Let the time of the cloud
  backup be strictly greater than the last sync time. For a holder other than
  \<open>manual\<close> the result is the failure with the remote-has-updates message and the
  trace holds the local snapshot only, so no remote write. For the holder \<open>manual\<close>
  the push goes on with the comparison of contents (lines 129-168): a result of the
  comparison is the result of the push, and without one the upload (lines 178-310)
  follows; in particular it follows when the contents differ.
\<close>

theorem smartPush_blocks_when_cloud_newer:
  assumes online: "onLine env"
    and lock: "skipLock \<or> fst (acquire (lock_env env) lockHolder w)"
    and tree: "getTree env = Inr localTree" "countBookmarks localTree \<noteq> 0"
    and latest: "getLatestBackupFile env = Inr (Some p)" "p \<noteq> []"
    and dl: "getFileWithDedup env p = Inr (Some j)" "j \<noteq> []"
    and parsed: "JSON_parse env j = Inr (Some cloudData)" "data cloudData = Some nodes"
    and last: "getLastSyncTime env (config_url config) = Inr lastSyncTime"
    and times: "valid_time (cloudTime_of cloudData)" "valid_time lastSyncTime"
    and newer: "cloudTime_of cloudData > lastSyncTime"
  shows "(lockHolder \<noteq> ''manual''
            \<longrightarrow> fst (smartPush env config lockHolder skipLock w) = failure CloudHasUpdates
              \<and> fst (snd (smartPush env config lockHolder skipLock w))
                  = [Call_createSnapshot localTree (countBookmarks localTree)]
              \<and> list_all (\<lambda>e. \<not> remote_write e) (fst (snd (smartPush env config lockHolder skipLock w))))
       \<and> (lockHolder = ''manual''
            \<longrightarrow> (case compare_content env (config_url config) lockHolder localTree p cloudData of
                   (Some r, evs) \<Rightarrow>
                     fst (smartPush env config lockHolder skipLock w) = r
                     \<and> push_trace env config lockHolder skipLock w
                         = Call_createSnapshot localTree (countBookmarks localTree) # evs
                 | (None, evs) \<Rightarrow>
                     fst (smartPush env config lockHolder skipLock w)
                       = catch_push (fst (upload env (config_url config)))
                     \<and> push_trace env config lockHolder skipLock w
                         = Call_createSnapshot localTree (countBookmarks localTree)
                           # evs @ snd (upload env (config_url config))))
       \<and> (lockHolder = ''manual'' \<and> compareWithCloud env localTree cloudData = Inr False
            \<longrightarrow> fst (smartPush env config lockHolder skipLock w)
                  = catch_push (fst (upload env (config_url config)))
              \<and> push_trace env config lockHolder skipLock w
                  = Call_createSnapshot localTree (countBookmarks localTree)
                    # snd (upload env (config_url config)))"
proof -
  note reached = check_cloud_reached [OF latest dl parsed last times(1)]
  note past = smartPush_past_lock [OF online lock, of config]
  note body = push_try_reached [OF tree, of "config_url config" lockHolder]
  have logged: "log_times (cloudTime_of cloudData) lastSyncTime = Inr ()"
    using times by (simp add: log_times_def toISOString_def)
  have blocked: "fst (smartPush env config lockHolder skipLock w) = failure CloudHasUpdates
      \<and> fst (snd (smartPush env config lockHolder skipLock w))
          = [Call_createSnapshot localTree (countBookmarks localTree)]
      \<and> list_all (\<lambda>e. \<not> remote_write e) (fst (snd (smartPush env config lockHolder skipLock w)))"
    if auto_sync: "lockHolder \<noteq> ''manual''"
  proof -
    have cc: "check_cloud env (config_url config) lockHolder localTree
                = (Some (failure CloudHasUpdates), [])"
      using reached newer auto_sync logged by simp
    have run: "push_try env (config_url config) lockHolder
            = (Inr (failure CloudHasUpdates), [Call_createSnapshot localTree (countBookmarks localTree)])"
      using body cc by simp
    from past run have r: "fst (smartPush env config lockHolder skipLock w) = failure CloudHasUpdates"
      by (simp add: catch_push_def)
    from past run have tr: "fst (snd (smartPush env config lockHolder skipLock w))
            = [Call_createSnapshot localTree (countBookmarks localTree)]"
      by simp
    from r tr show ?thesis
      by simp
  qed
  have cc: "check_cloud env (config_url config) lockHolder localTree
              = compare_content env (config_url config) lockHolder localTree p cloudData"
    if "lockHolder = ''manual''"
    using reached newer that logged by simp
  have continues:
    "(case compare_content env (config_url config) lockHolder localTree p cloudData of
        (Some r, evs) \<Rightarrow>
          fst (smartPush env config lockHolder skipLock w) = r
          \<and> push_trace env config lockHolder skipLock w
              = Call_createSnapshot localTree (countBookmarks localTree) # evs
      | (None, evs) \<Rightarrow>
          fst (smartPush env config lockHolder skipLock w)
            = catch_push (fst (upload env (config_url config)))
          \<and> push_trace env config lockHolder skipLock w
              = Call_createSnapshot localTree (countBookmarks localTree)
                # evs @ snd (upload env (config_url config)))"
    if manual: "lockHolder = ''manual''"
  proof (cases "compare_content env (config_url config) lockHolder localTree p cloudData")
    case (Pair res evs)
    show ?thesis
    proof (cases res)
      case None
      with Pair cc [OF manual] body
      have run: "push_try env (config_url config) lockHolder
          = (fst (upload env (config_url config)),
             Call_createSnapshot localTree (countBookmarks localTree)
             # evs @ snd (upload env (config_url config)))"
        by (simp split: prod.splits)
      with past Pair None show ?thesis
        by (simp add: push_trace_def)
    next
      case (Some r)
      with Pair cc [OF manual] body
      have run: "push_try env (config_url config) lockHolder
          = (Inr r, Call_createSnapshot localTree (countBookmarks localTree) # evs)"
        by simp
      with past Pair Some show ?thesis
        by (simp add: push_trace_def catch_push_def)
    qed
  qed
  have differs: "fst (smartPush env config lockHolder skipLock w)
        = catch_push (fst (upload env (config_url config)))
      \<and> push_trace env config lockHolder skipLock w
        = Call_createSnapshot localTree (countBookmarks localTree)
          # snd (upload env (config_url config))"
    if h: "lockHolder = ''manual'' \<and> compareWithCloud env localTree cloudData = Inr False"
  proof -
    from h have "compare_content env (config_url config) lockHolder localTree p cloudData = (None, [])"
      by (simp add: compare_content_def)
    with continues h show ?thesis
      by simp
  qed
  from blocked continues differs show ?thesis
    by blast
qed

theorem smartPush_blocks_when_cloud_newer_witness:
  "fst (smartPush (sample_env_cloud 5000 1000) sample_config ''auto-sync'' False
          (None, new_SyncLockManager)) = failure CloudHasUpdates
   \<and> fst (snd (smartPush (sample_env_cloud 5000 1000) sample_config ''auto-sync'' False
          (None, new_SyncLockManager))) = [Call_createSnapshot sample_tree 1]
   \<and> fst (smartPush (sample_env_cloud 5000 1000) sample_config ''manual'' False
          (None, new_SyncLockManager))
       = \<lparr>success = True, action = Uploaded, message = UploadSucceeded\<rparr>
   \<and> push_trace (sample_env_cloud 5000 1000) sample_config ''manual'' False
          (None, new_SyncLockManager)
       = [Call_createSnapshot sample_tree 1,
          Call_putFile ''BookmarkSyncer/bookmarks_20260206_120000_chrome_1_v1.json.gz'' ''H4sIAAAA'',
          Call_saveLastBackupFileInfo
            \<lparr>fileName = ''bookmarks_20260206_120000_chrome_1_v1.json.gz'',
             filePath = ''BookmarkSyncer/bookmarks_20260206_120000_chrome_1_v1.json.gz'',
             createdAt = 100000, revisionNumber = 1\<rparr>,
          Call_cleanOldBackups 3, Call_clearBackupListCache,
          Call_setSyncState Upload ''https://dav.example.com'']"
proof -
  let ?env = "sample_env_cloud 5000 1000"
  have online: "onLine ?env"
    by (simp add: sample_env_cloud_def sample_env_def)
  have lock: "False \<or> fst (acquire (lock_env ?env) ''auto-sync'' (None, new_SyncLockManager))"
    "False \<or> fst (acquire (lock_env ?env) ''manual'' (None, new_SyncLockManager))"
    by (simp_all add: sample_env_cloud_def sample_env_def sample_acquire)
  have tree: "getTree ?env = Inr sample_tree" "countBookmarks sample_tree \<noteq> 0"
    by (simp_all add: sample_env_cloud_def sample_env_def sample_tree_count)
  have latest: "getLatestBackupFile ?env = Inr (Some ''BookmarkSyncer/backup.json.gz'')"
      "''BookmarkSyncer/backup.json.gz'' \<noteq> []"
    by (simp_all add: sample_env_cloud_def)
  have dl: "getFileWithDedup ?env ''BookmarkSyncer/backup.json.gz'' = Inr (Some ''{}'')" "''{}'' \<noteq> []"
    by (simp_all add: sample_env_cloud_def)
  have parsed: "JSON_parse ?env ''{}'' = Inr (Some (sample_backup 5000))"
      "data (sample_backup 5000) = Some sample_tree"
    by (simp_all add: sample_env_cloud_def sample_backup_def)
  have last: "getLastSyncTime ?env (config_url sample_config) = Inr 1000"
    by (simp add: sample_env_cloud_def)
  have times: "valid_time (cloudTime_of (sample_backup 5000))" "valid_time 1000"
    by (simp_all add: valid_time_def cloudTime_of_def sample_backup_def)
  have newer: "cloudTime_of (sample_backup 5000) > 1000"
    by (simp add: cloudTime_of_def sample_backup_def)
  have differs: "compareWithCloud ?env sample_tree (sample_backup 5000) = Inr False"
    by (simp add: sample_env_cloud_def sample_env_def)
  have up: "upload ?env (config_url sample_config)
     = (Inr \<lparr>success = True, action = Uploaded, message = UploadSucceeded\<rparr>,
        [Call_putFile ''BookmarkSyncer/bookmarks_20260206_120000_chrome_1_v1.json.gz'' ''H4sIAAAA'',
         Call_saveLastBackupFileInfo
           \<lparr>fileName = ''bookmarks_20260206_120000_chrome_1_v1.json.gz'',
            filePath = ''BookmarkSyncer/bookmarks_20260206_120000_chrome_1_v1.json.gz'',
            createdAt = 100000, revisionNumber = 1\<rparr>,
         Call_cleanOldBackups 3, Call_clearBackupListCache,
         Call_setSyncState Upload ''https://dav.example.com''])"
    by (simp add: push_defs sample_defs)
  from smartPush_blocks_when_cloud_newer
    [OF online lock(1) tree latest dl parsed last times newer]
  have a: "fst (smartPush ?env sample_config ''auto-sync'' False (None, new_SyncLockManager))
             = failure CloudHasUpdates
     \<and> fst (snd (smartPush ?env sample_config ''auto-sync'' False (None, new_SyncLockManager)))
         = [Call_createSnapshot sample_tree 1]"
    by (simp add: sample_tree_count)
  from smartPush_blocks_when_cloud_newer
    [OF online lock(2) tree latest dl parsed last times newer] differs
  have b: "fst (smartPush ?env sample_config ''manual'' False (None, new_SyncLockManager))
             = catch_push (fst (upload ?env (config_url sample_config)))
     \<and> push_trace ?env sample_config ''manual'' False (None, new_SyncLockManager)
         = Call_createSnapshot sample_tree (countBookmarks sample_tree)
           # snd (upload ?env (config_url sample_config))"
    by blast
  from a b show ?thesis
    by (simp add: up catch_push_def sample_tree_count)
qed

subsection \<open>The shape of a trace that deletes a file\<close>

lemma finish_upload_quiet:
  "finish_upload env u = (r, evs) \<Longrightarrow> e \<in> set evs \<Longrightarrow> \<not> touches_files e"
  by (auto simp add: finish_upload_def split: sum.splits)

lemma finish_upload_no_delete:
  "finish_upload env u = (r, evs) \<Longrightarrow> Call_deleteFile q \<notin> set evs"
  by (auto dest: finish_upload_quiet)

lemma compare_content_quiet:
  "e \<in> set (snd (compare_content env u h t p cd)) \<Longrightarrow> \<not> touches_files e"
  by (auto simp add: compare_content_def Let_def split: sum.splits if_splits)

lemma check_times_quiet:
  "e \<in> set (snd (check_times env u h t p cd)) \<Longrightarrow> \<not> touches_files e"
  by (auto simp add: check_times_def Let_def compare_content_quiet split: sum.splits if_splits)

lemma check_cloud_quiet: "e \<in> set (snd (check_cloud env u h t)) \<Longrightarrow> \<not> touches_files e"
  by (auto simp add: check_cloud_def check_times_quiet split: sum.splits option.splits if_splits)

lemma write_files_shape:
  assumes "isNew \<longrightarrow> old = None"
    and "Call_deleteFile q \<in> set (snd (write_files env u fn tp fc rv isNew old lastInfo))"
  shows "\<exists>suf. snd (write_files env u fn tp fc rv isNew old lastInfo)
                 = Call_putFile tp fc # Call_deleteFile q # suf
              \<and> (\<forall>e\<in>set suf. \<not> touches_files e)
              \<and> putFile env tp fc = Inr () \<and> old = Some q \<and> q \<noteq> [] \<and> \<not> isNew"
  using assms
  by (auto simp add: write_files_def Let_def truthy_def dest: finish_upload_quiet finish_upload_no_delete
      split: sum.splits if_splits prod.splits option.splits)


lemma choose_target_cases:
  assumes "choose_target env lastInfo ms n = (tfn, rv, isNew, old)"
  shows "(isNew \<longrightarrow> old = None)
       \<and> (old = Some q \<longrightarrow> (\<exists>info. lastInfo = Some info \<and> Date_now env - createdAt info < ms
                                \<and> q = filePath info))"
  using assms by (auto simp add: choose_target_def split: option.splits if_splits)

lemma prepare_and_write_shape:
  assumes "Call_deleteFile q \<in> set (snd (prepare_and_write env u backup bd))"
  shows "\<exists>p c suf. snd (prepare_and_write env u backup bd)
                 = Call_putFile p c # Call_deleteFile q # suf
              \<and> (\<forall>e\<in>set suf. \<not> touches_files e)
              \<and> putFile env p c = Inr () \<and> in_replace_window env \<and> recorded_file env = Some q"
proof -
  from assms obtain mins lastInfo tfn rv isNew old fc fn tp
    where mins: "getBackupFileInterval env = Inr mins"
      and lastInfo: "getLastBackupFileInfo env = Inr lastInfo"
      and ct: "choose_target env lastInfo (mins * 60 * 1000) (countBookmarks bd) = (tfn, rv, isNew, old)"
      and run: "prepare_and_write env u backup bd = write_files env u fn tp fc rv isNew old lastInfo"
    by (auto simp add: prepare_and_write_def Let_def split: sum.splits prod.splits)
  from choose_target_cases [OF ct] have new: "isNew \<longrightarrow> old = None"
    by blast
  from assms run have del: "Call_deleteFile q \<in> set (snd (write_files env u fn tp fc rv isNew old lastInfo))"
    by simp
  from write_files_shape [OF new del] obtain suf
    where shape: "snd (write_files env u fn tp fc rv isNew old lastInfo)
                    = Call_putFile tp fc # Call_deleteFile q # suf"
      and quiet: "\<forall>e\<in>set suf. \<not> touches_files e"
      and put: "putFile env tp fc = Inr ()" and old: "old = Some q"
    by blast
  from choose_target_cases [OF ct, of q] old obtain info
    where "lastInfo = Some info" "Date_now env - createdAt info < mins * 60 * 1000" "q = filePath info"
    by blast
  with mins lastInfo have "in_replace_window env" "recorded_file env = Some q"
    by (simp_all add: in_replace_window_def recorded_file_def)
  with shape quiet put run show ?thesis
    by auto
qed


lemma upload_trace_cases:
  "snd (upload env u) = [] \<or> snd (upload env u) = [Call_createDirectory DIR]
   \<or> (\<exists>backup bd. snd (upload env u) = snd (prepare_and_write env u backup bd))
   \<or> (\<exists>backup bd. snd (upload env u) = Call_createDirectory DIR # snd (prepare_and_write env u backup bd))"
proof (cases "createCloudBackup env")
  case (Inl e)
  then show ?thesis by (simp add: upload_def)
next
  case (Inr created)
  show ?thesis
  proof (cases created)
    case None
    with Inr show ?thesis by (simp add: upload_def)
  next
    case (Some backup)
    show ?thesis
    proof (cases "data backup")
      case None
      with Inr Some show ?thesis by (simp add: upload_def)
    next
      case bd: (Some backup_data)
      show ?thesis
      proof (cases "metadata backup = None \<or> backup_data = []")
        case True
        with Inr Some bd show ?thesis by (auto simp add: upload_def)
      next
        case False
        then have valid: "metadata backup \<noteq> None" "backup_data \<noteq> []"
          by simp_all
        show ?thesis
        proof (cases "exists_dir env DIR")
          case True
          with Inr Some bd valid have "snd (upload env u) = snd (prepare_and_write env u backup backup_data)"
            by (auto simp add: upload_def)
          then show ?thesis by blast
        next
          case no_dir: False
          show ?thesis
          proof (cases "createDirectory env DIR")
            case (Inl e)
            with Inr Some bd valid no_dir show ?thesis by (auto simp add: upload_def)
          next
            case mk: (Inr x)
            with Inr Some bd valid no_dir
            have "snd (upload env u) = Call_createDirectory DIR # snd (prepare_and_write env u backup backup_data)"
              by (auto simp add: upload_def split: prod.splits)
            then show ?thesis by blast
          qed
        qed
      qed
    qed
  qed
qed

lemma upload_shape:
  assumes "Call_deleteFile q \<in> set (snd (upload env u))"
  shows "\<exists>pre p c suf. snd (upload env u) = pre @ Call_putFile p c # Call_deleteFile q # suf
              \<and> (\<forall>e\<in>set pre. \<not> touches_files e) \<and> (\<forall>e\<in>set suf. \<not> touches_files e)
              \<and> putFile env p c = Inr () \<and> in_replace_window env \<and> recorded_file env = Some q"
proof -
  from upload_trace_cases [of env u] assms obtain backup bd pre
    where run: "snd (upload env u) = pre @ snd (prepare_and_write env u backup bd)"
      and pre: "\<forall>e\<in>set pre. \<not> touches_files e"
      and del: "Call_deleteFile q \<in> set (snd (prepare_and_write env u backup bd))"
  proof (elim disjE exE)
    assume "snd (upload env u) = []"
    with assms show ?thesis by simp
  next
    assume "snd (upload env u) = [Call_createDirectory DIR]"
    with assms show ?thesis by simp
  next
    fix backup bd
    assume h: "snd (upload env u) = snd (prepare_and_write env u backup bd)"
    with assms that [of "[]" backup bd] show ?thesis by simp
  next
    fix backup bd
    assume h: "snd (upload env u) = Call_createDirectory DIR # snd (prepare_and_write env u backup bd)"
    with assms that [of "[Call_createDirectory DIR]" backup bd] show ?thesis by simp
  qed
  from prepare_and_write_shape [OF del] obtain p c suf
    where "snd (prepare_and_write env u backup bd) = Call_putFile p c # Call_deleteFile q # suf"
      and "\<forall>e\<in>set suf. \<not> touches_files e"
      and "putFile env p c = Inr ()" "in_replace_window env" "recorded_file env = Some q"
    by blast
  with run pre
  have "snd (upload env u) = pre @ Call_putFile p c # Call_deleteFile q # suf
      \<and> (\<forall>e\<in>set pre. \<not> touches_files e) \<and> (\<forall>e\<in>set suf. \<not> touches_files e)
      \<and> putFile env p c = Inr () \<and> in_replace_window env \<and> recorded_file env = Some q"
    by simp
  then show ?thesis
    by blast
qed

lemma push_try_shape:
  assumes "Call_deleteFile q \<in> set (snd (push_try env u h))"
  shows "\<exists>pre p c suf. snd (push_try env u h) = pre @ Call_putFile p c # Call_deleteFile q # suf
              \<and> (\<forall>e\<in>set pre. \<not> touches_files e) \<and> (\<forall>e\<in>set suf. \<not> touches_files e)
              \<and> putFile env p c = Inr () \<and> in_replace_window env \<and> recorded_file env = Some q"
proof (cases "getTree env")
  case (Inl e)
  with assms show ?thesis by (simp add: push_try_def)
next
  case (Inr localTree)
  show ?thesis
  proof (cases "countBookmarks localTree = 0")
    case True
    with Inr assms show ?thesis by (simp add: push_try_def)
  next
    case False
    obtain r evs where cc: "check_cloud env u h localTree = (r, evs)"
      by (cases "check_cloud env u h localTree")
    then have quiet: "\<forall>e\<in>set evs. \<not> touches_files e"
      using check_cloud_quiet [of _ env u h localTree] by auto
    show ?thesis
    proof (cases r)
      case (Some res)
      with push_try_reached [OF Inr False, of u h] cc
      have "snd (push_try env u h) = Call_createSnapshot localTree (countBookmarks localTree) # evs"
        by simp
      with assms quiet show ?thesis by auto
    next
      case None
      with push_try_reached [OF Inr False, of u h] cc
      have tr: "snd (push_try env u h)
             = (Call_createSnapshot localTree (countBookmarks localTree) # evs) @ snd (upload env u)"
        by (simp split: prod.splits)
      with assms quiet have "Call_deleteFile q \<in> set (snd (upload env u))"
        by auto
      from upload_shape [OF this] obtain pre p c suf
        where "snd (upload env u) = pre @ Call_putFile p c # Call_deleteFile q # suf"
          and "\<forall>e\<in>set pre. \<not> touches_files e" "\<forall>e\<in>set suf. \<not> touches_files e"
          and "putFile env p c = Inr ()" "in_replace_window env" "recorded_file env = Some q"
        by blast
      with tr quiet
      have "snd (push_try env u h)
              = ((Call_createSnapshot localTree (countBookmarks localTree) # evs) @ pre)
                 @ Call_putFile p c # Call_deleteFile q # suf
            \<and> (\<forall>e\<in>set ((Call_createSnapshot localTree (countBookmarks localTree) # evs) @ pre).
                  \<not> touches_files e)
            \<and> (\<forall>e\<in>set suf. \<not> touches_files e)
            \<and> putFile env p c = Inr () \<and> in_replace_window env \<and> recorded_file env = Some q"
        by auto
      then show ?thesis by blast
    qed
  qed
qed

lemma push_trace_cases:
  "push_trace env config h skipLock w = [] \<or> push_trace env config h skipLock w = snd (push_try env (config_url config) h)"
  by (simp add: push_trace_def smartPush_def split: prod.splits)

lemma push_trace_shape:
  assumes "Call_deleteFile q \<in> set (push_trace env config h skipLock w)"
  shows "\<exists>pre p c suf. push_trace env config h skipLock w = pre @ Call_putFile p c # Call_deleteFile q # suf
              \<and> (\<forall>e\<in>set pre. \<not> touches_files e) \<and> (\<forall>e\<in>set suf. \<not> touches_files e)
              \<and> putFile env p c = Inr () \<and> in_replace_window env \<and> recorded_file env = Some q"
  using assms push_trace_cases [of env config h skipLock w] push_try_shape [of q env "config_url config" h]
  by auto

lemma unique_delete_position:
  assumes "\<forall>e\<in>set pre. \<not> touches_files e" and "\<forall>e\<in>set suf. \<not> touches_files e"
    and "pre @ Call_putFile p c # Call_deleteFile q # suf = xs @ Call_deleteFile q' # ys"
  shows "xs = pre @ [Call_putFile p c] \<and> q' = q \<and> ys = suf"
  using assms
  by (auto simp add: append_eq_append_conv2 append_eq_Cons_conv Cons_eq_append_conv)

lemma files_after_quiet: "\<forall>e\<in>set es. \<not> touches_files e \<Longrightarrow> files_after X es R = R"
proof (induction es arbitrary: R)
  case Nil
  then show ?case by simp
next
  case (Cons e es)
  then show ?case by (cases e) simp_all
qed

lemma files_after_append: "files_after X (xs @ ys) R = files_after X ys (files_after X xs R)"
  by (induction xs arbitrary: R) simp_all

lemma files_after_replace:
  assumes pre: "\<forall>e\<in>set pre. \<not> touches_files e" and suf: "\<forall>e\<in>set suf. \<not> touches_files e"
    and ne: "R \<noteq> {}" and diff: "p \<noteq> q"
  shows "files_after X (take n (pre @ Call_putFile p c # Call_deleteFile q # suf)) R \<noteq> {}"
proof -
  have a: "files_after X (take n pre) R = R"
    using pre by (intro files_after_quiet) (auto dest: in_set_takeD)
  have b: "files_after X (take m (Call_putFile p c # Call_deleteFile q # suf)) R \<noteq> {}" for m
  proof (cases m)
    case 0
    with ne show ?thesis by simp
  next
    case (Suc k)
    show ?thesis
    proof (cases k)
      case 0
      with Suc show ?thesis by simp
    next
      case (Suc j)
      have "files_after X (take j suf) (insert p R - {q}) = insert p R - {q}"
        using suf by (intro files_after_quiet) (auto dest: in_set_takeD)
      with \<open>m = Suc k\<close> Suc diff show ?thesis by auto
    qed
  qed
  show ?thesis
    using a b by (simp add: files_after_append)
qed


lemma smartPush_ignores_deleteFile_outcome:
  "smartPush (env\<lparr>deleteFile := d\<rparr>) config h skipLock w = smartPush env config h skipLock w"
proof -
  let ?env' = "env\<lparr>deleteFile := d\<rparr>"
  have wf: "write_files ?env' = write_files env"
    by (simp add: write_files_def finish_upload_def kept_createdAt_def fun_eq_iff Let_def
        cong: sum.case_cong option.case_cong prod.case_cong if_cong split: sum.splits)
  have pw: "prepare_and_write ?env' = prepare_and_write env"
    by (simp add: prepare_and_write_def wf choose_target_def fun_eq_iff Let_def
        cong: sum.case_cong option.case_cong prod.case_cong if_cong)
  have up: "upload ?env' = upload env"
    by (simp add: upload_def pw fun_eq_iff
        cong: sum.case_cong option.case_cong prod.case_cong if_cong)
  have cmp: "compare_content ?env' = compare_content env"
    by (simp add: compare_content_def cloudBrowser_of_def fun_eq_iff Let_def
        cong: sum.case_cong option.case_cong if_cong)
  have ct: "check_times ?env' = check_times env"
    by (simp add: check_times_def cloudCount_of_def cmp fun_eq_iff Let_def
        cong: sum.case_cong option.case_cong if_cong)
  have cc: "check_cloud ?env' = check_cloud env"
    by (simp add: check_cloud_def ct fun_eq_iff Let_def
        cong: sum.case_cong option.case_cong if_cong)
  have pt: "push_try ?env' = push_try env"
    by (simp add: push_try_def cc up fun_eq_iff Let_def
        cong: sum.case_cong option.case_cong prod.case_cong if_cong)
  show ?thesis
    by (simp add: smartPush_def pt cong: prod.case_cong if_cong)
qed

text \<open>
  C3. Whenever the trace of \<open>smartPush\<close> holds a \<open>deleteFile\<close>, the revision-replace
  branch was taken, the file deleted is the recorded one, the call just before it is
  a \<open>putFile\<close> that succeeded, and no other call of the trace adds or removes files.
  The outcome of \<open>deleteFile\<close> has no effect on what \<open>smartPush\<close> returns. So after any
  number of the calls of such a trace the backup directory is not empty, if it was
  not empty before and the new file's path is not the recorded one.
\<close>

theorem smartPush_puts_before_deleting:
  "(\<forall>xs q ys. push_trace env config lockHolder skipLock w = xs @ Call_deleteFile q # ys
       \<longrightarrow> in_replace_window env \<and> recorded_file env = Some q
           \<and> (\<exists>zs p c. xs = zs @ [Call_putFile p c] \<and> putFile env p c = Inr ()
                  \<and> (\<forall>e\<in>set zs. \<not> touches_files e))
           \<and> (\<forall>e\<in>set ys. \<not> touches_files e))
   \<and> smartPush (env\<lparr>deleteFile := d\<rparr>) config lockHolder skipLock w
       = smartPush env config lockHolder skipLock w
   \<and> (\<forall>q R n. Call_deleteFile q \<in> set (push_trace env config lockHolder skipLock w) \<and> R \<noteq> {}
           \<and> (\<forall>p c. Call_putFile p c \<in> set (push_trace env config lockHolder skipLock w) \<longrightarrow> p \<noteq> q)
       \<longrightarrow> files_after X (take n (push_trace env config lockHolder skipLock w)) R \<noteq> {})"
proof (intro conjI allI impI)
  fix xs q ys
  assume split: "push_trace env config lockHolder skipLock w = xs @ Call_deleteFile q # ys"
  then have "Call_deleteFile q \<in> set (push_trace env config lockHolder skipLock w)"
    by simp
  from push_trace_shape [OF this] obtain pre p c suf
    where shape: "push_trace env config lockHolder skipLock w
                    = pre @ Call_putFile p c # Call_deleteFile q # suf"
      and pre: "\<forall>e\<in>set pre. \<not> touches_files e" and suf: "\<forall>e\<in>set suf. \<not> touches_files e"
      and put: "putFile env p c = Inr ()"
      and window: "in_replace_window env" and recorded: "recorded_file env = Some q"
    by blast
  from split shape have "pre @ Call_putFile p c # Call_deleteFile q # suf = xs @ Call_deleteFile q # ys"
    by simp
  from unique_delete_position [OF pre suf this]
  have xs: "xs = pre @ [Call_putFile p c]" and ys: "ys = suf"
    by simp_all
  show "in_replace_window env" by (rule window)
  show "recorded_file env = Some q" by (rule recorded)
  from xs put pre
  show "\<exists>zs p c. xs = zs @ [Call_putFile p c] \<and> putFile env p c = Inr ()
            \<and> (\<forall>e\<in>set zs. \<not> touches_files e)"
    by blast
  from ys suf show "\<forall>e\<in>set ys. \<not> touches_files e"
    by simp
next
  show "smartPush (env\<lparr>deleteFile := d\<rparr>) config lockHolder skipLock w
          = smartPush env config lockHolder skipLock w"
    by (rule smartPush_ignores_deleteFile_outcome)
next
  fix q and R :: "string set" and n
  assume h: "Call_deleteFile q \<in> set (push_trace env config lockHolder skipLock w) \<and> R \<noteq> {}
      \<and> (\<forall>p c. Call_putFile p c \<in> set (push_trace env config lockHolder skipLock w) \<longrightarrow> p \<noteq> q)"
  then have del: "Call_deleteFile q \<in> set (push_trace env config lockHolder skipLock w)"
    by simp
  from push_trace_shape [OF del] obtain pre p c suf
    where shape: "push_trace env config lockHolder skipLock w
                    = pre @ Call_putFile p c # Call_deleteFile q # suf"
      and pre: "\<forall>e\<in>set pre. \<not> touches_files e" and suf: "\<forall>e\<in>set suf. \<not> touches_files e"
    by blast
  from h shape have "p \<noteq> q" and "R \<noteq> {}"
    by auto
  with files_after_replace [OF pre suf] shape
  show "files_after X (take n (push_trace env config lockHolder skipLock w)) R \<noteq> {}"
    by simp
qed

lemma sample_replace_run:
  "smartPush sample_env_replace sample_config ''manual'' False (None, new_SyncLockManager)
   = (\<lparr>success = True, action = Uploaded, message = UploadSucceeded\<rparr>,
      [Call_createSnapshot sample_tree 1,
       Call_putFile ''BookmarkSyncer/bookmarks_20260206_120000_chrome_1_v2.json.gz'' ''H4sIAAAA'',
       Call_deleteFile ''BookmarkSyncer/old_backup.json.gz'',
       Call_saveLastBackupFileInfo
         \<lparr>fileName = ''bookmarks_20260206_120000_chrome_1_v2.json.gz'',
          filePath = ''BookmarkSyncer/bookmarks_20260206_120000_chrome_1_v2.json.gz'',
          createdAt = 70000, revisionNumber = 2\<rparr>,
       Call_clearBackupListCache,
       Call_setSyncState Upload ''https://dav.example.com''],
      None, \<lparr>activeLockId = None\<rparr>)"
  by (simp add: push_defs sample_defs sample_env_replace_def)

theorem smartPush_puts_before_deleting_witness:
  "in_replace_window sample_env_replace
   \<and> recorded_file sample_env_replace = Some ''BookmarkSyncer/old_backup.json.gz''
   \<and> push_trace sample_env_replace sample_config ''manual'' False (None, new_SyncLockManager)
       = [Call_createSnapshot sample_tree 1,
          Call_putFile ''BookmarkSyncer/bookmarks_20260206_120000_chrome_1_v2.json.gz'' ''H4sIAAAA'',
          Call_deleteFile ''BookmarkSyncer/old_backup.json.gz'']
         @ drop 3 (push_trace sample_env_replace sample_config ''manual'' False (None, new_SyncLockManager))
   \<and> success (fst (smartPush sample_env_replace sample_config ''manual'' False (None, new_SyncLockManager)))"
proof -
  let ?T = "push_trace sample_env_replace sample_config ''manual'' False (None, new_SyncLockManager)"
  have T: "?T = [Call_createSnapshot sample_tree 1,
          Call_putFile ''BookmarkSyncer/bookmarks_20260206_120000_chrome_1_v2.json.gz'' ''H4sIAAAA'']
         @ Call_deleteFile ''BookmarkSyncer/old_backup.json.gz'' # drop 3 ?T"
    by (simp add: push_trace_def sample_replace_run)
  from smartPush_puts_before_deleting [of sample_env_replace sample_config "''manual''" False
      "(None, new_SyncLockManager)"] T
  have "in_replace_window sample_env_replace
      \<and> recorded_file sample_env_replace = Some ''BookmarkSyncer/old_backup.json.gz''"
    by blast
  with T show ?thesis
    by (simp add: sample_replace_run)
qed


text \<open>
  C5, as stated for every execution with identical contents, fails when the skip
  cannot be completed or the comparison is not reached: the \<open>catch\<close> of line 173 goes
  on to the upload. In the first run the write of the sync state is rejected after
  the comparison found the contents identical, and the automated push puts a file.
  In the second the cloud backup carries a time beyond the last time value, the log
  line of line 98 throws before the comparison, and the \<open>manual\<close> push from another
  browser uploads.
\<close>

theorem smartPush_uploads_identical_content:
  "action (fst (smartPush
       ((sample_env_identical 5000 6000 False)\<lparr>setSyncState := (\<lambda>t. Inl (Error (Text ''QuotaExceededError'')))\<rparr>)
       sample_config ''auto-sync'' False (None, new_SyncLockManager))) \<noteq> Skipped
   \<and> Call_putFile ''BookmarkSyncer/bookmarks_20260206_120000_chrome_1_v1.json.gz'' ''H4sIAAAA''
       \<in> set (push_trace
            ((sample_env_identical 5000 6000 False)\<lparr>setSyncState := (\<lambda>t. Inl (Error (Text ''QuotaExceededError'')))\<rparr>)
            sample_config ''auto-sync'' False (None, new_SyncLockManager))
   \<and> fst (smartPush (sample_env_identical 8640000000000001 1000 False) sample_config ''manual'' False
          (None, new_SyncLockManager))
       = \<lparr>success = True, action = Uploaded, message = UploadSucceeded\<rparr>
   \<and> Call_putFile ''BookmarkSyncer/bookmarks_20260206_120000_chrome_1_v1.json.gz'' ''H4sIAAAA''
       \<in> set (push_trace (sample_env_identical 8640000000000001 1000 False) sample_config ''manual'' False
                 (None, new_SyncLockManager))"
  by (simp add: push_trace_def push_defs sample_defs sample_env_identical_def)

text \<open>
  C5, amended. Let the push reach the comparison of contents: it is past the lock
  with a non-empty local tree, the latest cloud backup is fetched and parsed and has
  bookmark data and a time that is a time value, the last sync time is read, and the
  push is not blocked as in C4 (a cloud backup newer than the last sync only for the
  holder \<open>manual\<close>, the last sync time then a time value). Let the comparison find the
  contents identical. Unless the holder is \<open>manual\<close> and the browser is the one of
  the cloud backup: when the write of the sync state returns, the result is the
  success with action \<open>skipped\<close> and the trace holds the local snapshot and that write
  only, so no \<open>putFile\<close>; when that write is rejected, the upload follows. For the
  holder \<open>manual\<close> from the same browser the push goes on to the upload (lines
  178-310) all the same.
\<close>

theorem smartPush_skips_identical_content:
  assumes online: "onLine env"
    and lock: "skipLock \<or> fst (acquire (lock_env env) lockHolder w)"
    and tree: "getTree env = Inr localTree" "countBookmarks localTree \<noteq> 0"
    and latest: "getLatestBackupFile env = Inr (Some p)" "p \<noteq> []"
    and dl: "getFileWithDedup env p = Inr (Some j)" "j \<noteq> []"
    and parsed: "JSON_parse env j = Inr (Some cloudData)" "data cloudData = Some nodes"
    and last: "getLastSyncTime env (config_url config) = Inr lastSyncTime"
    and time: "valid_time (cloudTime_of cloudData)"
    and not_blocked: "\<not> (cloudTime_of cloudData > lastSyncTime \<and> lockHolder \<noteq> ''manual'')"
    and logged: "cloudTime_of cloudData > lastSyncTime \<longrightarrow> valid_time lastSyncTime"
    and identical: "compareWithCloud env localTree cloudData = Inr True"
  shows "(\<not> (lockHolder = ''manual'' \<and> isSameBrowser env (browserName env) (cloudBrowser_of env p))
          \<and> setSyncState env SkipIdentical = Inr ()
            \<longrightarrow> fst (smartPush env config lockHolder skipLock w)
                  = \<lparr>success = True, action = Skipped, message = AlreadySynced\<rparr>
              \<and> push_trace env config lockHolder skipLock w
                  = [Call_createSnapshot localTree (countBookmarks localTree),
                     Call_setSyncState SkipIdentical (config_url config)])
       \<and> (\<not> (lockHolder = ''manual'' \<and> isSameBrowser env (browserName env) (cloudBrowser_of env p))
          \<and> setSyncState env SkipIdentical \<noteq> Inr ()
            \<longrightarrow> fst (smartPush env config lockHolder skipLock w)
                  = catch_push (fst (upload env (config_url config)))
              \<and> push_trace env config lockHolder skipLock w
                  = Call_createSnapshot localTree (countBookmarks localTree)
                    # Call_setSyncState SkipIdentical (config_url config)
                    # snd (upload env (config_url config)))
       \<and> (lockHolder = ''manual'' \<and> isSameBrowser env (browserName env) (cloudBrowser_of env p)
            \<longrightarrow> fst (smartPush env config lockHolder skipLock w)
                  = catch_push (fst (upload env (config_url config)))
              \<and> push_trace env config lockHolder skipLock w
                  = Call_createSnapshot localTree (countBookmarks localTree)
                    # snd (upload env (config_url config)))"
proof -
  have cc: "check_cloud env (config_url config) lockHolder localTree
              = compare_content env (config_url config) lockHolder localTree p cloudData"
  proof (cases "cloudTime_of cloudData > lastSyncTime")
    case True
    with not_blocked logged time have "lockHolder = ''manual''"
      and "log_times (cloudTime_of cloudData) lastSyncTime = Inr ()"
      by (simp_all add: log_times_def toISOString_def)
    with True check_cloud_reached [OF latest dl parsed last time] show ?thesis
      by simp
  next
    case False
    with check_cloud_reached [OF latest dl parsed last time] show ?thesis
      by simp
  qed
  note past = smartPush_past_lock [OF online lock, of config]
  note body = push_try_reached [OF tree, of "config_url config" lockHolder]
  have skipped: "fst (smartPush env config lockHolder skipLock w)
                  = \<lparr>success = True, action = Skipped, message = AlreadySynced\<rparr>
              \<and> push_trace env config lockHolder skipLock w
                  = [Call_createSnapshot localTree (countBookmarks localTree),
                     Call_setSyncState SkipIdentical (config_url config)]"
    if h: "\<not> (lockHolder = ''manual'' \<and> isSameBrowser env (browserName env) (cloudBrowser_of env p))
          \<and> setSyncState env SkipIdentical = Inr ()"
  proof -
    from h have "compare_content env (config_url config) lockHolder localTree p cloudData
               = (Some \<lparr>success = True, action = Skipped, message = AlreadySynced\<rparr>,
                  [Call_setSyncState SkipIdentical (config_url config)])"
      using identical by (auto simp add: compare_content_def Let_def)
    with cc body have run: "push_try env (config_url config) lockHolder
        = (Inr \<lparr>success = True, action = Skipped, message = AlreadySynced\<rparr>,
           [Call_createSnapshot localTree (countBookmarks localTree),
            Call_setSyncState SkipIdentical (config_url config)])"
      by simp
    with past show ?thesis
      by (simp add: catch_push_def push_trace_def)
  qed
  have rejected: "fst (smartPush env config lockHolder skipLock w)
                  = catch_push (fst (upload env (config_url config)))
              \<and> push_trace env config lockHolder skipLock w
                  = Call_createSnapshot localTree (countBookmarks localTree)
                    # Call_setSyncState SkipIdentical (config_url config)
                    # snd (upload env (config_url config))"
    if h: "\<not> (lockHolder = ''manual'' \<and> isSameBrowser env (browserName env) (cloudBrowser_of env p))
          \<and> setSyncState env SkipIdentical \<noteq> Inr ()"
  proof -
    from h obtain e where "setSyncState env SkipIdentical = Inl e"
      by (cases "setSyncState env SkipIdentical") auto
    with h have "compare_content env (config_url config) lockHolder localTree p cloudData
               = (None, [Call_setSyncState SkipIdentical (config_url config)])"
      using identical by (auto simp add: compare_content_def Let_def)
    with cc body have run: "push_try env (config_url config) lockHolder
        = (fst (upload env (config_url config)),
           Call_createSnapshot localTree (countBookmarks localTree)
           # Call_setSyncState SkipIdentical (config_url config)
           # snd (upload env (config_url config)))"
      by (simp split: prod.splits)
    with past show ?thesis
      by (simp add: push_trace_def)
  qed
  have uploads: "fst (smartPush env config lockHolder skipLock w)
                  = catch_push (fst (upload env (config_url config)))
              \<and> push_trace env config lockHolder skipLock w
                  = Call_createSnapshot localTree (countBookmarks localTree)
                    # snd (upload env (config_url config))"
    if h: "lockHolder = ''manual'' \<and> isSameBrowser env (browserName env) (cloudBrowser_of env p)"
  proof -
    from h have "compare_content env (config_url config) lockHolder localTree p cloudData = (None, [])"
      using identical by (simp add: compare_content_def Let_def)
    with cc body have run: "push_try env (config_url config) lockHolder
        = (fst (upload env (config_url config)),
           Call_createSnapshot localTree (countBookmarks localTree) # snd (upload env (config_url config)))"
      by (simp split: prod.splits)
    with past show ?thesis
      by (simp add: push_trace_def)
  qed
  from skipped rejected uploads show ?thesis
    by blast
qed

theorem smartPush_skips_identical_content_witness:
  "fst (smartPush (sample_env_identical 5000 6000 False) sample_config ''auto-sync'' False
          (None, new_SyncLockManager))
     = \<lparr>success = True, action = Skipped, message = AlreadySynced\<rparr>
   \<and> push_trace (sample_env_identical 5000 6000 False) sample_config ''auto-sync'' False
          (None, new_SyncLockManager)
     = [Call_createSnapshot sample_tree 1, Call_setSyncState SkipIdentical ''https://dav.example.com'']
   \<and> Call_putFile ''BookmarkSyncer/bookmarks_20260206_120000_chrome_1_v1.json.gz'' ''H4sIAAAA''
       \<in> set (push_trace (sample_env_identical 5000 6000 True) sample_config ''manual'' False
                 (None, new_SyncLockManager))"
proof -
  let ?env = "sample_env_identical 5000 6000 False"
  let ?env' = "sample_env_identical 5000 6000 True"
  have online: "onLine ?env" "onLine ?env'"
    by (simp_all add: sample_env_identical_def sample_env_cloud_def sample_env_def)
  have lock: "False \<or> fst (acquire (lock_env ?env) ''auto-sync'' (None, new_SyncLockManager))"
    "False \<or> fst (acquire (lock_env ?env') ''manual'' (None, new_SyncLockManager))"
    by (simp_all add: sample_env_identical_def sample_env_cloud_def sample_env_def sample_acquire)
  have tree: "getTree ?env = Inr sample_tree" "countBookmarks sample_tree \<noteq> 0"
    and tree': "getTree ?env' = Inr sample_tree"
    by (simp_all add: sample_env_identical_def sample_env_cloud_def sample_env_def sample_tree_count)
  have latest: "getLatestBackupFile ?env = Inr (Some ''BookmarkSyncer/backup.json.gz'')"
      "''BookmarkSyncer/backup.json.gz'' \<noteq> []"
    and latest': "getLatestBackupFile ?env' = Inr (Some ''BookmarkSyncer/backup.json.gz'')"
    by (simp_all add: sample_env_identical_def sample_env_cloud_def)
  have dl: "getFileWithDedup ?env ''BookmarkSyncer/backup.json.gz'' = Inr (Some ''{}'')" "''{}'' \<noteq> []"
    and dl': "getFileWithDedup ?env' ''BookmarkSyncer/backup.json.gz'' = Inr (Some ''{}'')"
    by (simp_all add: sample_env_identical_def sample_env_cloud_def)
  have parsed: "JSON_parse ?env ''{}'' = Inr (Some (sample_backup 5000))"
      "data (sample_backup 5000) = Some sample_tree"
    and parsed': "JSON_parse ?env' ''{}'' = Inr (Some (sample_backup 5000))"
    by (simp_all add: sample_env_identical_def sample_env_cloud_def sample_backup_def)
  have last: "getLastSyncTime ?env (config_url sample_config) = Inr 6000"
    and last': "getLastSyncTime ?env' (config_url sample_config) = Inr 6000"
    by (simp_all add: sample_env_identical_def sample_env_cloud_def)
  have time: "valid_time (cloudTime_of (sample_backup 5000))"
    by (simp add: valid_time_def cloudTime_of_def sample_backup_def)
  have not_blocked: "\<not> (cloudTime_of (sample_backup 5000) > 6000 \<and> ''auto-sync'' \<noteq> ''manual'')"
    and not_blocked': "\<not> (cloudTime_of (sample_backup 5000) > 6000 \<and> ''manual'' \<noteq> ''manual'')"
    and logged: "cloudTime_of (sample_backup 5000) > 6000 \<longrightarrow> valid_time 6000"
    by (simp_all add: cloudTime_of_def sample_backup_def)
  have identical: "compareWithCloud ?env sample_tree (sample_backup 5000) = Inr True"
    and identical': "compareWithCloud ?env' sample_tree (sample_backup 5000) = Inr True"
    by (simp_all add: sample_env_identical_def)
  have skip: "setSyncState ?env SkipIdentical = Inr ()" and other: "\<not> isSameBrowser ?env a b"
    and same: "isSameBrowser ?env' a b" for a b
    by (simp_all add: sample_env_identical_def sample_env_cloud_def sample_env_def)
  have up: "snd (upload ?env' (config_url sample_config))
     = [Call_putFile ''BookmarkSyncer/bookmarks_20260206_120000_chrome_1_v1.json.gz'' ''H4sIAAAA'',
        Call_saveLastBackupFileInfo
         \<lparr>fileName = ''bookmarks_20260206_120000_chrome_1_v1.json.gz'',
            filePath = ''BookmarkSyncer/bookmarks_20260206_120000_chrome_1_v1.json.gz'',
            createdAt = 100000, revisionNumber = 1\<rparr>,
        Call_cleanOldBackups 3, Call_clearBackupListCache,
        Call_setSyncState Upload ''https://dav.example.com'']"
    by (simp add: push_defs sample_defs sample_env_identical_def)
  from smartPush_skips_identical_content
    [OF online(1) lock(1) tree latest dl parsed last time not_blocked logged identical] skip other
  have a: "fst (smartPush ?env sample_config ''auto-sync'' False (None, new_SyncLockManager))
     = \<lparr>success = True, action = Skipped, message = AlreadySynced\<rparr>
   \<and> push_trace ?env sample_config ''auto-sync'' False (None, new_SyncLockManager)
     = [Call_createSnapshot sample_tree 1, Call_setSyncState SkipIdentical ''https://dav.example.com'']"
    by (simp add: sample_tree_count sample_config_def)
  from smartPush_skips_identical_content
    [OF online(2) lock(2) tree' tree(2) latest' latest(2) dl' dl(2) parsed' parsed(2) last' time
      not_blocked' logged identical']
    same
  have b: "push_trace ?env' sample_config ''manual'' False (None, new_SyncLockManager)
     = Call_createSnapshot sample_tree (countBookmarks sample_tree)
       # snd (upload ?env' (config_url sample_config))"
    by simp
  from a b up show ?thesis
    by simp
qed


section \<open>Properties of concurrent calls of acquire\<close>

lemma step_call_keeps:
  "call_env (fst (step_call c st)) = call_env c \<and> call_holder (fst (step_call c st)) = call_holder c"
  by (simp split: acquire_pc.splits)

lemma step_keeps_lockIds:
  "call_lockId (callA (step x s)) = call_lockId (callA s) \<and> call_lockId (callB (step x s)) = call_lockId (callB s)"
  by (cases x) (simp_all add: call_lockId_def split: prod.splits acquire_pc.splits)

lemma run_keeps_lockIds:
  "call_lockId (callA (run xs s)) = call_lockId (callA s) \<and> call_lockId (callB (run xs s)) = call_lockId (callB s)"
  by (induction xs arbitrary: s) (simp_all add: step_keeps_lockIds)

lemma race_inv_step:
  assumes "race_inv s"
    and "call_pc (this_call x s) = AtVerify \<longrightarrow> written (other_call x s)"
  shows "race_inv (step x s)"
  using assms
  by (cases x)
     (auto simp add: race_inv_def holds_def written_def call_lockId_def acquire_verify_def
        split: prod.splits acquire_pc.splits if_splits option.splits)

lemma race_inv_run:
  assumes "race_inv s" and "settled xs s"
  shows "race_inv (run xs s)"
  using assms
proof (induction xs arbitrary: s)
  case Nil
  then show ?case by simp
next
  case (Cons x xs)
  from Cons.prems have "race_inv (step x s)"
    by (intro race_inv_step) (simp_all split: if_splits)
  moreover from Cons.prems have "settled xs (step x s)"
    by simp
  ultimately show ?case
    using Cons.IH by simp
qed

lemma run_alone_is_acquire:
  "run [CallerA, CallerA, CallerA] \<lparr>stored = st, callA = start_call hld env m, callB = c\<rparr>
   = (case acquire env hld (st, m) of
        (r, st', m') \<Rightarrow>
          \<lparr>stored = st', callA = \<lparr>call_holder = hld, call_env = env, call_instance = m', call_pc = Returned r\<rparr>,
           callB = c\<rparr>)"
  by (simp add: start_call_def acquire_def Let_def acquire_verify_def newLock_def)

lemma verify_step_true_iff:
  assumes "call_pc c = AtVerify"
  shows "call_pc (fst (step_call c st)) = Returned True
         \<longleftrightarrow> \<not> verify_rejects (call_env c) \<and> holds c st"
  using assms
  by (auto simp add: acquire_verify_def holds_def call_lockId_def split: option.splits)

lemmas race_defs = race_start_def start_call_def sample_acquire_env_def new_SyncLockManager_def
  acquire_check_def acquire_verify_def newLock_def written_def






text \<open>
  C8, as stated, fails: a call whose write lands after the other call's re-read also
  finds its own lockId at its re-read. Here B reads, A reads, writes and re-reads, then
  B writes and re-reads; both return true.
\<close>

theorem acquire_race_both_win:
  "call_pc (callA (run [CallerB, CallerA, CallerA, CallerA, CallerB, CallerB] race_start)) = Returned True
   \<and> call_pc (callB (run [CallerB, CallerA, CallerA, CallerA, CallerB, CallerB] race_start)) = Returned True"
  by (simp add: race_defs)

text \<open>
  C8, amended. Of two calls with different generated lockIds, started together, at
  most one returns true under every settled schedule: a call returns true only if
  the lockId stored at its re-read is its own (\<open>verify_step_true_iff\<close>), and once both
  writes have landed the storage no longer changes.
\<close>

theorem acquire_race_one_winner:
  assumes start: "call_pc (callA s) = AtRead" "call_pc (callB s) = AtRead"
    and distinct: "call_lockId (callA s) \<noteq> call_lockId (callB s)"
    and order: "settled xs s"
  shows "\<not> (call_pc (callA (run xs s)) = Returned True \<and> call_pc (callB (run xs s)) = Returned True)"
proof
  assume both: "call_pc (callA (run xs s)) = Returned True \<and> call_pc (callB (run xs s)) = Returned True"
  from start have "race_inv s"
    by (simp add: race_inv_def)
  from race_inv_run [OF this order] both
  have "holds (callA (run xs s)) (stored (run xs s))" and "holds (callB (run xs s)) (stored (run xs s))"
    by (simp_all add: race_inv_def)
  then have "call_lockId (callA (run xs s)) = call_lockId (callB (run xs s))"
    by (auto simp add: holds_def split: option.splits)
  with run_keeps_lockIds [of xs s] distinct show False
    by metis
qed

theorem acquire_race_one_winner_witness:
  "settled [CallerA, CallerB, CallerA, CallerB, CallerA, CallerB] race_start
   \<and> call_pc (callA (run [CallerA, CallerB, CallerA, CallerB, CallerA, CallerB] race_start)) = Returned False
   \<and> call_pc (callB (run [CallerA, CallerB, CallerA, CallerB, CallerA, CallerB] race_start)) = Returned True
   \<and> \<not> (call_pc (callA (run [CallerA, CallerB, CallerA, CallerB, CallerA, CallerB] race_start)) = Returned True
         \<and> call_pc (callB (run [CallerA, CallerB, CallerA, CallerB, CallerA, CallerB] race_start)) = Returned True)"
proof -
  let ?xs = "[CallerA, CallerB, CallerA, CallerB, CallerA, CallerB]"
  have start: "call_pc (callA race_start) = AtRead" "call_pc (callB race_start) = AtRead"
    by (simp_all add: race_start_def start_call_def)
  have distinct: "call_lockId (callA race_start) \<noteq> call_lockId (callB race_start)"
    by (simp add: race_start_def start_call_def call_lockId_def fresh_lockId_def)
  have order: "settled ?xs race_start"
    by (simp add: race_defs)
  have a: "call_pc (callA (run ?xs race_start)) = Returned False"
    and b: "call_pc (callB (run ?xs race_start)) = Returned True"
    by (simp_all add: race_defs fresh_lockId_def)
  from acquire_race_one_winner [OF start distinct order] order a b show ?thesis
    by blast
qed

section \<open>Properties of the compression utilities\<close>

subsection \<open>Base64\<close>

lemma base64_value_char: "n < 64 \<Longrightarrow> base64_value (base64_char n) = Some n"
  by (auto simp add: base64_value_def base64_char_def Let_def)

lemma base64_char_not_pad: "n < 64 \<Longrightarrow> base64_char n \<noteq> CHR ''=''"
  using base64_value_char [of n] by (auto simp add: base64_value_def)

lemma base64_char_not_space: "n < 64 \<Longrightarrow> \<not> ascii_whitespace (base64_char n)"
  using base64_value_char [of n]
  by (auto simp add: base64_value_def ascii_whitespace_def Let_def split: if_splits)

lemma sextets_bound: "\<forall>x\<in>set bs. x < 256 \<Longrightarrow> \<forall>y\<in>set (sextets bs). y < 64"
  by (induction bs rule: sextets.induct) auto

lemma length_sextets: "length (sextets bs) = (4 * length bs + 2) div 3"
  by (induction bs rule: sextets.induct) auto

lemma byte_parts:
  assumes "b < (256::nat)"
  shows "b div 16 div 16 = 0" and "b div 16 mod 16 = b div 16"
    and "b div 64 div 4 = 0" and "b div 64 mod 4 = b div 64"
  using assms by (simp_all add: div_mult2_eq [symmetric] less_mult_imp_div_less)

lemma octets_sextets: "\<forall>x\<in>set bs. x < 256 \<Longrightarrow> octets (sextets bs) = bs"
  by (induction bs rule: sextets.induct) (simp_all add: byte_parts)


lemma length_btoa_mod4: "((4 * n + 2) div 3 + padding n) mod 4 = 0"
  unfolding padding_def by presburger

lemma length_sextets_mod4: "(4 * n + 2) div 3 mod 4 \<noteq> (1::nat)"
  by presburger

lemma sextets_nonempty: "padding n \<noteq> 0 \<Longrightarrow> 0 < (4 * n + 2) div 3"
  unfolding padding_def by presburger

lemma padding_cases: "padding n = 0 \<or> padding n = 1 \<or> padding n = 2"
  by (simp add: padding_def)

lemma strip_padding_body:
  assumes chars: "\<forall>c\<in>set body. c \<noteq> CHR ''=''"
    and len: "(length body + p) mod 4 = 0"
    and p: "p = 0 \<or> p = 1 \<or> p = 2" and nonempty: "p \<noteq> 0 \<longrightarrow> body \<noteq> []"
  shows "strip_padding (body @ replicate p CHR ''='') = body"
proof -
  consider "p = 0" | "p = 1" | "p = 2" using p by blast
  then show ?thesis
  proof cases
    case 1
    show ?thesis
    proof (cases "body = []")
      case True
      with 1 show ?thesis by (simp add: strip_padding_def)
    next
      case False
      then have "body ! (length body - 1) \<noteq> CHR ''=''"
        using chars by (simp add: nth_mem)
      with 1 False show ?thesis
        by (simp add: strip_padding_def)
    qed
  next
    case 2
    with nonempty have ne: "body \<noteq> []" by simp
    then have "body ! (length body - 1) \<noteq> CHR ''=''"
      using chars by (simp add: nth_mem)
    with 2 ne len show ?thesis
      by (simp add: strip_padding_def nth_append)
  next
    case 3
    have "replicate p CHR ''='' = [CHR ''='', CHR ''='']"
      using 3 by (simp add: numeral_2_eq_2)
    with len 3 show ?thesis
      by (simp add: strip_padding_def nth_append)
  qed
qed

lemma btoa_body_bound: "\<forall>y\<in>set (sextets (map of_char binary)). y < 64"
  by (rule sextets_bound) auto

lemma length_btoa: "length (btoa binary) mod 4 = 0"
  using length_btoa_mod4 [of "length binary"] by (simp add: btoa_def length_sextets)

lemma strip_padding_btoa:
  "strip_padding (btoa binary) = map base64_char (sextets (map of_char binary))"
proof -
  let ?body = "map base64_char (sextets (map of_char binary))"
  let ?p = "padding (length binary)"
  have no_pad: "\<forall>c\<in>set ?body. c \<noteq> CHR ''=''"
    using btoa_body_bound [of binary] by (auto simp add: base64_char_not_pad)
  have len: "(length ?body + ?p) mod 4 = 0"
    using length_btoa_mod4 [of "length binary"] by (simp add: length_sextets)
  have nonempty: "?p \<noteq> 0 \<longrightarrow> ?body \<noteq> []"
    using sextets_nonempty [of "length binary"] by (auto simp add: length_sextets simp flip: length_0_conv)
  show ?thesis
    unfolding btoa_def
    by (rule strip_padding_body [OF no_pad len padding_cases nonempty])
qed

lemma atob_btoa: "atob (btoa binary) = Some binary"
proof -
  let ?bs = "map of_char binary :: nat list"
  let ?sx = "sextets ?bs"
  let ?body = "map base64_char ?sx"
  have bytes: "\<forall>x\<in>set ?bs. x < 256"
    by auto
  note sx = btoa_body_bound [of binary]
  have no_space: "\<forall>c\<in>set ?body. \<not> ascii_whitespace c"
    using sx by (auto simp add: base64_char_not_space)
  have "\<not> ascii_whitespace CHR ''=''"
    by (simp add: ascii_whitespace_def)
  with no_space have filtered: "filter (\<lambda>c. \<not> ascii_whitespace c) (btoa binary) = btoa binary"
    by (auto simp add: btoa_def filter_id_conv)
  have not1: "length ?body mod 4 \<noteq> 1"
    using length_sextets_mod4 [of "length binary"] by (simp add: length_sextets)
  have valid: "list_all (\<lambda>c. base64_value c \<noteq> None) ?body"
    using sx by (auto simp add: list_all_iff base64_value_char)
  have decoded: "map (\<lambda>c. the (base64_value c)) ?body = ?sx"
    using sx by (auto intro!: map_idI simp add: base64_value_char)
  have "map char_of (octets ?sx) = binary"
    by (simp add: octets_sextets [OF bytes] map_idI)
  with filtered strip_padding_btoa [of binary] not1 valid decoded show ?thesis
    by (simp add: atob_def)
qed

lemma valid_base64_btoa: "valid_base64 (btoa binary)"
  using btoa_body_bound [of binary]
  by (auto simp add: valid_base64_def length_btoa strip_padding_btoa list_all_iff base64_value_char)

subsection \<open>The chunked conversion and the merged chunks\<close>

lemma chunk_loop_all:
  assumes "chunkSize \<le> max_arguments P"
  shows "chunk_loop P bytes i binary = Inr (binary @ map (\<lambda>b. char_of (unat b)) (drop i bytes))"
  using assms
proof (induction P bytes i binary rule: chunk_loop.induct)
  case (1 P bytes i binary)
  show ?case
  proof (cases "i < length bytes")
    case False
    then show ?thesis by (simp add: chunk_loop.simps)
  next
    case True
    let ?chunk = "take (min (i + chunkSize) (length bytes) - i) (drop i bytes)"
    have small: "length ?chunk \<le> max_arguments P"
      using 1 by auto
    then have piece: "fromCharCode_apply P ?chunk = Inr (map (\<lambda>b. char_of (unat b)) ?chunk)"
      by (simp add: fromCharCode_apply_def)
    have "?chunk = take chunkSize (drop i bytes)"
      using True by (auto simp add: min_def)
    moreover have "drop i bytes = take chunkSize (drop i bytes) @ drop (i + chunkSize) bytes"
      by (metis append_take_drop_id drop_drop add.commute)
    ultimately have split: "drop i bytes = ?chunk @ drop (i + chunkSize) bytes"
      by simp
    from "1.IH" [OF True piece] "1.prems"
    have "chunk_loop P bytes (i + chunkSize) (binary @ map (\<lambda>b. char_of (unat b)) ?chunk)
            = Inr ((binary @ map (\<lambda>b. char_of (unat b)) ?chunk)
                   @ map (\<lambda>b. char_of (unat b)) (drop (i + chunkSize) bytes))"
      by simp
    with True piece have "chunk_loop P bytes i binary
            = Inr (binary @ map (\<lambda>b. char_of (unat b)) (?chunk @ drop (i + chunkSize) bytes))"
      by (subst chunk_loop.simps) simp
    with split show ?thesis by simp
  qed
qed

lemma uint8ArrayToBase64_chunked:
  assumes "chunkSize \<le> max_arguments P"
  shows "uint8ArrayToBase64 P bytes = Inr (btoa (map (\<lambda>b. char_of (unat b)) bytes))"
  by (simp add: uint8ArrayToBase64_def chunk_loop_all [OF assms])

lemma foldl_total_length: "foldl (\<lambda>acc chunk. acc + length chunk) n chunks = n + length (concat chunks)"
  by (induction chunks arbitrary: n) simp_all

lemma set_chunks_concat:
  assumes "length result = offset + length (concat chunks)"
  shows "set_chunks result offset chunks = Inr (take offset result @ concat chunks)"
  using assms
proof (induction chunks arbitrary: result offset)
  case Nil
  then show ?case by simp
next
  case (Cons chunk chunks)
  let ?next = "take offset result @ chunk @ drop (offset + length chunk) result"
  from Cons.prems have len: "length ?next = (offset + length chunk) + length (concat chunks)"
    by simp
  from Cons.prems have "take (offset + length chunk) ?next = take offset result @ chunk"
    by simp
  with Cons.IH [OF len] Cons.prems show ?case
    by simp
qed

lemma merge_chunks_concat: "merge_chunks chunks = Inr (concat chunks)"
  by (simp add: merge_chunks_def foldl_total_length set_chunks_concat)

lemma byte_char_byte: "of_nat (of_char (char_of (unat b) :: char)) = (b :: byte)"
proof -
  have "unat b < 256"
    using unsigned_less [of b, where 'a = nat] by simp
  then have "unat b mod 256 = unat b"
    by simp
  then show ?thesis
    by simp
qed

lemma charCodes_map:
  "map (\<lambda>i. of_nat (charCodeAt s i)) [0..<length s] = (map (\<lambda>c. of_nat (of_char c)) s :: byte list)"
  by (rule nth_equalityI) (simp_all add: charCodeAt_def)

lemma bytes_of_binary_string:
  "map (\<lambda>i. of_nat (charCodeAt (map (\<lambda>b. char_of (unat b)) bytes) i))
     [0..<length (map (\<lambda>b. char_of (unat b)) bytes)] = (bytes :: byte list)"
  unfolding charCodes_map map_map by (rule map_idI) (simp only: o_apply byte_char_byte)

lemma unchunked_conversion_fails:
  "max_arguments P < length bytes \<Longrightarrow> fromCharCode_apply P bytes = Inl (Error RangeError)"
  by (simp add: fromCharCode_apply_def)

subsection \<open>The UTF-8 encoder and decoder\<close>

lemma decode1:
  assumes "b \<le> 127"
  shows "utf8_decode utf8_start (b # rest) = b # utf8_decode utf8_start rest"
  using assms by (simp add: utf8_step_def utf8_lead_def utf8_start_def)

lemma decode2:
  assumes "194 \<le> b1" "b1 \<le> 223" "128 \<le> b2" "b2 \<le> 191"
  shows "utf8_decode utf8_start (b1 # b2 # rest)
         = (b1 mod 32 * 64 + b2 mod 64) # utf8_decode utf8_start rest"
  using assms by (simp add: utf8_step_def utf8_lead_def utf8_start_def)

lemma decode3:
  assumes "224 \<le> b1" "b1 \<le> 239"
    and "(if b1 = 224 then 160 else 128) \<le> b2" "b2 \<le> (if b1 = 237 then 159 else 191)"
    and "128 \<le> b3" "b3 \<le> 191"
  shows "utf8_decode utf8_start (b1 # b2 # b3 # rest)
         = ((b1 mod 16 * 64 + b2 mod 64) * 64 + b3 mod 64) # utf8_decode utf8_start rest"
  using assms by (simp add: utf8_step_def utf8_lead_def utf8_start_def split: if_splits)

lemma decode4:
  assumes "240 \<le> b1" "b1 \<le> 244"
    and "(if b1 = 240 then 144 else 128) \<le> b2" "b2 \<le> (if b1 = 244 then 143 else 191)"
    and "128 \<le> b3" "b3 \<le> 191" and "128 \<le> b4" "b4 \<le> 191"
  shows "utf8_decode utf8_start (b1 # b2 # b3 # b4 # rest)
         = (((b1 mod 8 * 64 + b2 mod 64) * 64 + b3 mod 64) * 64 + b4 mod 64)
           # utf8_decode utf8_start rest"
  using assms by (simp add: utf8_step_def utf8_lead_def utf8_start_def split: if_splits)


lemma mod_lead2: "k < 32 \<Longrightarrow> (192 + k) mod 32 = (k::nat)"
  using mod_mult_self3 [of 6 32 k] by simp

lemma mod_lead3: "k < 16 \<Longrightarrow> (224 + k) mod 16 = (k::nat)"
  using mod_mult_self3 [of 14 16 k] by simp

lemma mod_lead4: "k < 8 \<Longrightarrow> (240 + k) mod 8 = (k::nat)"
  using mod_mult_self3 [of 30 8 k] by simp

lemma mod_trail: "(128 + k mod 64) mod 64 = (k::nat) mod 64"
  using mod_mult_self3 [of 2 64 "k mod 64"] by simp

lemma trail_range: "128 \<le> 128 + (k::nat) mod 64 \<and> 128 + k mod 64 \<le> 191"
proof -
  have "k mod 64 < 64" by simp
  then show ?thesis by linarith
qed

lemma join3: "(cp div 4096 * 64 + cp div 64 mod 64) * 64 + cp mod 64 = (cp::nat)"
proof -
  have "cp div 4096 = cp div 64 div 64"
    by (simp add: div_mult2_eq [symmetric])
  then have "cp div 4096 * 64 + cp div 64 mod 64 = cp div 64"
    by simp
  then show ?thesis by simp
qed

lemma join4:
  "((cp div 262144 * 64 + cp div 4096 mod 64) * 64 + cp div 64 mod 64) * 64 + cp mod 64 = (cp::nat)"
proof -
  have "cp div 262144 = cp div 4096 div 64"
    by (simp add: div_mult2_eq [symmetric])
  then have "cp div 262144 * 64 + cp div 4096 mod 64 = cp div 4096"
    by simp
  then have "((cp div 262144 * 64 + cp div 4096 mod 64) * 64 + cp div 64 mod 64) * 64 + cp mod 64
      = (cp div 4096 * 64 + cp div 64 mod 64) * 64 + cp mod 64"
    by (simp only:)
  with join3 [of cp] show ?thesis by (simp only:)
qed

lemma two_bytes:
  assumes "128 \<le> cp" and "cp < 2048"
  shows "utf8_decode utf8_start ([192 + cp div 64, 128 + cp mod 64] @ rest)
         = cp # utf8_decode utf8_start rest"
proof -
  define k where "k = cp div 64"
  have k: "2 \<le> k" "k < 32"
    using assms div_le_mono [of 128 cp 64] less_mult_imp_div_less [of cp 32 64]
    by (simp_all add: k_def)
  then have b1: "194 \<le> 192 + k" "192 + k \<le> 223"
    by linarith+
  note b2 = trail_range [of cp]
  have "(192 + k) mod 32 * 64 + (128 + cp mod 64) mod 64 = cp"
    using k by (simp add: mod_lead2 mod_trail k_def)
  with decode2 [OF b1 b2 [THEN conjunct1] b2 [THEN conjunct2], of rest] show ?thesis
    by (simp add: k_def)
qed

lemma three_bytes:
  assumes "2048 \<le> cp" and "cp < 65536" and "cp < 55296 \<or> 57343 < cp"
  shows "utf8_decode utf8_start ([224 + cp div 4096, 128 + cp div 64 mod 64, 128 + cp mod 64] @ rest)
         = cp # utf8_decode utf8_start rest"
proof -
  define k where "k = cp div 4096"
  define x where "x = cp div 64"
  define m where "m = x mod 64"
  have k: "k < 16"
    using assms less_mult_imp_div_less [of cp 16 4096] by (simp add: k_def)
  have kx: "k = x div 64"
    by (simp add: k_def x_def div_mult2_eq [symmetric])
  have x: "x = k * 64 + m"
    by (simp add: kx m_def)
  have lower: "32 \<le> x"
    using assms div_le_mono [of 2048 cp 64] by (simp add: x_def)
  have m: "m < 64"
    by (simp add: m_def)
  have b1: "224 \<le> 224 + k" "224 + k \<le> 239"
    using k by linarith+
  have lo: "(if 224 + k = 224 then 160 else 128) \<le> 128 + m"
    using x lower by auto
  have hi: "128 + m \<le> (if 224 + k = 237 then 159 else 191)"
  proof (cases "k = 13")
    case True
    with assms have "cp < 55296"
      using div_le_mono [of 57344 cp 4096] by (auto simp add: k_def)
    then have "x < 864"
      using less_mult_imp_div_less [of cp 864 64] by (simp add: x_def)
    with x True have "m < 32"
      by linarith
    with True show ?thesis by simp
  next
    case False
    with m show ?thesis by simp
  qed
  note b3 = trail_range [of cp]
  have "((224 + k) mod 16 * 64 + (128 + m) mod 64) * 64 + (128 + cp mod 64) mod 64 = cp"
    using k join3 [of cp] by (simp add: mod_lead3 mod_trail k_def m_def x_def)
  with decode3 [OF b1 lo hi b3 [THEN conjunct1] b3 [THEN conjunct2], of rest] show ?thesis
    by (simp add: k_def m_def x_def)
qed

lemma four_bytes:
  assumes "65536 \<le> cp" and "cp < 1114112"
  shows "utf8_decode utf8_start
           ([240 + cp div 262144, 128 + cp div 4096 mod 64, 128 + cp div 64 mod 64, 128 + cp mod 64]
            @ rest)
         = cp # utf8_decode utf8_start rest"
proof -
  define k where "k = cp div 262144"
  define x where "x = cp div 4096"
  define m where "m = x mod 64"
  have k: "k < 5"
    using assms less_mult_imp_div_less [of cp 5 262144] by (simp add: k_def)
  have kx: "k = x div 64"
    by (simp add: k_def x_def div_mult2_eq [symmetric])
  have x: "x = k * 64 + m"
    by (simp add: kx m_def)
  have lower: "16 \<le> x"
    using assms div_le_mono [of 65536 cp 4096] by (simp add: x_def)
  have upper: "x < 272"
    using assms less_mult_imp_div_less [of cp 272 4096] by (simp add: x_def)
  have m: "m < 64"
    by (simp add: m_def)
  have b1: "240 \<le> 240 + k" "240 + k \<le> 244"
    using k by linarith+
  have lo: "(if 240 + k = 240 then 144 else 128) \<le> 128 + m"
    using x lower by auto
  have hi: "128 + m \<le> (if 240 + k = 244 then 143 else 191)"
    using x upper m by auto
  note b3 = trail_range [of "cp div 64"]
  note b4 = trail_range [of cp]
  have "(((240 + k) mod 8 * 64 + (128 + m) mod 64) * 64 + (128 + cp div 64 mod 64) mod 64) * 64
          + (128 + cp mod 64) mod 64 = cp"
    using k join4 [of cp] by (simp add: mod_lead4 mod_trail k_def m_def x_def)
  with decode4 [OF b1 lo hi b3 [THEN conjunct1] b3 [THEN conjunct2] b4 [THEN conjunct1]
      b4 [THEN conjunct2], of rest]
  show ?thesis
    by (simp add: k_def m_def x_def)
qed

lemma utf8_decode_bytes:
  assumes "scalar_value cp"
  shows "utf8_decode utf8_start (utf8_bytes cp @ rest) = cp # utf8_decode utf8_start rest"
proof -
  consider "cp < 128" | "128 \<le> cp" "cp < 2048" | "2048 \<le> cp" "cp < 65536" | "65536 \<le> cp"
    by linarith
  then show ?thesis
  proof cases
    case 1
    then show ?thesis
      using decode1 [of cp rest] by (simp add: utf8_bytes_def)
  next
    case 2
    then show ?thesis
      using two_bytes [of cp rest] by (simp add: utf8_bytes_def)
  next
    case 3
    with assms have "cp < 55296 \<or> 57343 < cp"
      by (simp add: scalar_value_def)
    with 3 show ?thesis
      using three_bytes [of cp rest] by (simp add: utf8_bytes_def)
  next
    case 4
    with assms have "cp < 1114112"
      by (simp add: scalar_value_def)
    with 4 show ?thesis
      using four_bytes [of cp rest] by (simp add: utf8_bytes_def)
  qed
qed


lemma utf8_decode_all:
  assumes "list_all scalar_value cps"
  shows "utf8_decode utf8_start (concat (map utf8_bytes cps)) = cps"
  using assms
proof (induction cps)
  case Nil
  show ?case by (simp add: utf8_start_def)
next
  case (Cons cp cps)
  then show ?case by (simp add: utf8_decode_bytes)
qed

lemma utf8_bytes_range:
  assumes "scalar_value cp"
  shows "\<forall>b\<in>set (utf8_bytes cp). b < 256"
proof -
  have t: "128 + k mod 64 < 256" for k :: nat
    using trail_range [of k] by linarith
  consider "cp < 128" | "128 \<le> cp" "cp < 2048" | "2048 \<le> cp" "cp < 65536" | "65536 \<le> cp"
    by linarith
  then show ?thesis
  proof cases
    case 1
    then show ?thesis by (simp add: utf8_bytes_def)
  next
    case 2
    then have "cp div 64 < 32"
      using less_mult_imp_div_less [of cp 32 64] by simp
    then have "192 + cp div 64 < 256" by linarith
    with 2 t show ?thesis by (simp add: utf8_bytes_def)
  next
    case 3
    then have "cp div 4096 < 16"
      using less_mult_imp_div_less [of cp 16 4096] by simp
    then have "224 + cp div 4096 < 256" by linarith
    with 3 t show ?thesis by (simp add: utf8_bytes_def)
  next
    case 4
    with assms have "cp < 1114112"
      by (simp add: scalar_value_def)
    then have "cp div 262144 < 5"
      using less_mult_imp_div_less [of cp 5 262144] by simp
    then have "240 + cp div 262144 < 256" by linarith
    with 4 t show ?thesis by (simp add: utf8_bytes_def)
  qed
qed

lemma unat_of_nat_byte: "b < 256 \<Longrightarrow> unat (of_nat b :: byte) = b"
  by (simp add: unat_of_nat)

lemma bytes_back:
  assumes "list_all scalar_value cps"
  shows "map unat (map of_nat (concat (map utf8_bytes cps)) :: byte list) = concat (map utf8_bytes cps)"
proof -
  have "\<forall>b\<in>set (concat (map utf8_bytes cps)). b < 256"
    using assms utf8_bytes_range by (auto simp add: list_all_iff)
  then have "unat (of_nat b :: byte) = b" if "b \<in> set (concat (map utf8_bytes cps))" for b
    using that unat_of_nat_byte by blast
  then have "map (\<lambda>b. unat (of_nat b :: byte)) (concat (map utf8_bytes cps)) = concat (map utf8_bytes cps)"
    by (rule map_idI)
  then show ?thesis
    by (simp add: o_def)
qed

lemma surrogate_pair:
  assumes "55296 \<le> c" "c \<le> 56319" "56320 \<le> d" "d \<le> 57343"
  shows "scalar_value (65536 + (c - 55296) * 1024 + (d - 56320))"
    and "utf16_units (65536 + (c - 55296) * 1024 + (d - 56320)) = [c, d]"
proof -
  define h where "h = c - 55296"
  define l where "l = d - 56320"
  have h: "h < 1024" "c = 55296 + h" and l: "l < 1024" "d = 56320 + l"
    using assms by (simp_all add: h_def l_def)
  have "h * 1024 + l < 1048576"
    using h l by linarith
  then show "scalar_value (65536 + (c - 55296) * 1024 + (d - 56320))"
    by (simp add: scalar_value_def h_def l_def)
  have "(h * 1024 + l) div 1024 = h" "(h * 1024 + l) mod 1024 = l"
    using l by simp_all
  then show "utf16_units (65536 + (c - 55296) * 1024 + (d - 56320)) = [c, d]"
    using h l by (simp add: utf16_units_def h_def [symmetric] l_def [symmetric])
qed

lemma well_formed_scalars:
  assumes "well_formed str"
  shows "list_all scalar_value (to_scalar_values str)
       \<and> concat (map utf16_units (to_scalar_values str)) = str"
  using assms
proof (induction str rule: to_scalar_values.induct)
  case 1
  then show ?case by simp
next
  case (2 c)
  then show ?case by (auto simp add: scalar_value_def utf16_units_def)
next
  case (3 c d cs)
  show ?case
  proof (cases "55296 \<le> c \<and> c \<le> 56319")
    case True
    with "3.prems" have d: "56320 \<le> d" "d \<le> 57343" and rest: "well_formed cs"
      by simp_all
    from True d "3.IH"(1) rest surrogate_pair [of c d] show ?thesis
      by simp
  next
    case False
    with "3.prems" have c: "c < 55296 \<or> (57343 < c \<and> c < 65536)" and rest: "well_formed (d # cs)"
      by simp_all
    then have not_low: "\<not> (56320 \<le> c \<and> c \<le> 57343)"
      by linarith
    from c have here: "scalar_value c" "utf16_units c = [c]"
      by (auto simp add: scalar_value_def utf16_units_def)
    have "to_scalar_values (c # d # cs) = c # to_scalar_values (d # cs)"
      by (simp only: to_scalar_values.simps if_not_P [OF False] if_not_P [OF not_low])
    with here "3.IH"(4) [OF False not_low rest] show ?thesis
      by simp
  qed
qed

lemma first_scalar:
  assumes "well_formed str" and "str \<noteq> []" and "hd str \<noteq> 65279"
  shows "to_scalar_values str \<noteq> [] \<and> hd (to_scalar_values str) \<noteq> 65279"
  using assms
proof (induction str rule: to_scalar_values.induct)
  case 1
  then show ?case by simp
next
  case (2 c)
  then show ?case by auto
next
  case (3 c d cs)
  then show ?case by (auto split: if_splits)
qed

lemma text_codec_round_trip:
  assumes "well_formed str" and "str = [] \<or> hd str \<noteq> 0xFEFF"
  shows "TextDecoder_decode (TextEncoder_encode str) = str"
proof -
  let ?cps = "to_scalar_values str"
  from well_formed_scalars [OF assms(1)]
  have scalars: "list_all scalar_value ?cps" and units: "concat (map utf16_units ?cps) = str"
    by simp_all
  have decoded: "utf8_decode utf8_start (map unat (TextEncoder_encode str)) = ?cps"
    by (simp only: TextEncoder_encode_def bytes_back [OF scalars] utf8_decode_all [OF scalars])
  have "strip_BOM ?cps = ?cps"
  proof (cases "str = []")
    case True
    then show ?thesis by (simp add: strip_BOM_def)
  next
    case False
    with assms first_scalar [of str] have "?cps \<noteq> [] \<and> hd ?cps \<noteq> 65279"
      by simp
    then show ?thesis
      by (cases ?cps) (simp_all add: strip_BOM_def)
  qed
  with decoded units show ?thesis
    by (simp add: TextDecoder_decode_def)
qed

lemmas text_defs = TextDecoder_decode_def TextEncoder_encode_def utf8_bytes_def utf8_step_def
  utf8_lead_def utf8_start_def strip_BOM_def utf16_units_def Let_def

lemma bom_lost: "TextDecoder_decode (TextEncoder_encode [0xFEFF, 0x41]) = [0x41]"
  by (simp add: text_defs)

lemma surrogate_lost: "TextDecoder_decode (TextEncoder_encode [0xD800]) = [0xFFFD]"
  by (simp add: text_defs)

subsection \<open>compressText and decompressText\<close>

lemma compressText_result:
  assumes "chunkSize \<le> max_arguments P"
  shows "compressText P text
         = Inr (btoa (binary_string (concat (gzip_stream P (TextEncoder_encode text)))))"
  by (simp add: compressText_def merge_chunks_concat uint8ArrayToBase64_chunked [OF assms]
      binary_string_def)

lemma decompressText_btoa:
  "decompressText P (btoa (binary_string bytes))
   = (case gunzip_stream P bytes of
        Inl e \<Rightarrow> Inl e
      | Inr chunks \<Rightarrow> Inr (TextDecoder_decode (concat chunks)))"
  by (simp add: decompressText_def atob_btoa binary_string_def bytes_of_binary_string
      merge_chunks_concat del: length_map cong: sum.case_cong)

lemma decompressText_compressed:
  assumes "streams_invert P (TextEncoder_encode text)"
  shows "decompressText P (btoa (binary_string (concat (gzip_stream P (TextEncoder_encode text)))))
         = Inr (TextDecoder_decode (TextEncoder_encode text))"
proof -
  from assms obtain chunks
    where "gunzip_stream P (concat (gzip_stream P (TextEncoder_encode text))) = Inr chunks"
      and "concat chunks = TextEncoder_encode text"
    by (auto simp add: streams_invert_def split: sum.splits)
  then show ?thesis
    by (simp add: decompressText_btoa)
qed

lemma identity_streams_invert: "streams_invert identity_streams input"
  by (simp add: streams_invert_def identity_streams_def)

lemma identity_limit: "chunkSize \<le> max_arguments identity_streams"
  by (simp add: chunkSize_def identity_streams_def)

text \<open>
  Whatever the streams do, as long as they invert each other, a string that starts
  with U+FEFF comes back without it.
\<close>

lemma leading_BOM_is_lost:
  assumes "chunkSize \<le> max_arguments P" and "streams_invert P (TextEncoder_encode [0xFEFF, 0x41])"
  shows "\<exists>b. compressText P [0xFEFF, 0x41] = Inr b \<and> decompressText P b = Inr [0x41]"
proof -
  from decompressText_compressed [OF assms(2)]
  have "decompressText P (btoa (binary_string (concat (gzip_stream P (TextEncoder_encode [0xFEFF, 0x41])))))
      = Inr [0x41]"
    by (simp only: bom_lost)
  with compressText_result [OF assms(1), of "[0xFEFF, 0x41]"] show ?thesis
    by blast
qed

text \<open>
  C7, as stated for every string, fails on the two-unit string U+FEFF, \<open>A\<close>: the encoder
  writes the bytes EF BB BF 41, \<open>compressText\<close> returns their Base64 text, and the
  decoder of \<open>decompressText\<close> takes the first three bytes for a byte order mark, so
  the string that comes back is \<open>A\<close>. The streams play no part in it: no platform
  whose streams invert each other gives the string back.
\<close>

theorem round_trip_loses_BOM:
  "compressText identity_streams [0xFEFF, 0x41] = Inr ''77u/QQ==''
   \<and> decompressText identity_streams ''77u/QQ=='' = Inr [0x41]
   \<and> \<not> (\<exists>P b. chunkSize \<le> max_arguments P
              \<and> streams_invert P (TextEncoder_encode [0xFEFF, 0x41])
              \<and> compressText P [0xFEFF, 0x41] = Inr b
              \<and> decompressText P b = Inr [0xFEFF, 0x41])"
proof -
  have enc: "TextEncoder_encode [0xFEFF, 0x41] = [0xEF, 0xBB, 0xBF, 0x41]"
    by (simp add: text_defs)
  have b64: "btoa (binary_string [0xEF, 0xBB, 0xBF, 0x41]) = ''77u/QQ==''"
    by code_simp
  have gz: "concat (gzip_stream identity_streams d) = d"
    and gunz: "gunzip_stream identity_streams d = Inr [d]" for d
    by (simp_all add: identity_streams_def)
  have a: "compressText identity_streams [0xFEFF, 0x41] = Inr ''77u/QQ==''"
    by (simp only: compressText_result [OF identity_limit] enc gz b64)
  have "decompressText identity_streams (btoa (binary_string [0xEF, 0xBB, 0xBF, 0x41])) = Inr [0x41]"
    unfolding decompressText_btoa gunz using bom_lost by (simp add: enc)
  then have b: "decompressText identity_streams ''77u/QQ=='' = Inr [0x41]"
    by (simp only: b64)
  have c: "\<not> (\<exists>P b. chunkSize \<le> max_arguments P
              \<and> streams_invert P (TextEncoder_encode [0xFEFF, 0x41])
              \<and> compressText P [0xFEFF, 0x41] = Inr b
              \<and> decompressText P b = Inr [0xFEFF, 0x41])"
  proof
    assume "\<exists>P b. chunkSize \<le> max_arguments P
              \<and> streams_invert P (TextEncoder_encode [0xFEFF, 0x41])
              \<and> compressText P [0xFEFF, 0x41] = Inr b
              \<and> decompressText P b = Inr [0xFEFF, 0x41]"
    then obtain P b where limit: "chunkSize \<le> max_arguments P"
      and streams: "streams_invert P (TextEncoder_encode [0xFEFF, 0x41])"
      and run: "compressText P [0xFEFF, 0x41] = Inr b" "decompressText P b = Inr [0xFEFF, 0x41]"
      by blast
    from leading_BOM_is_lost [OF limit streams] run show False
      by auto
  qed
  from a b c show ?thesis
    by (intro conjI)
qed

text \<open>
  C7, amended. On a platform whose engine accepts \<open>chunkSize\<close> = 8192 arguments and
  whose streams invert each other on the encoded text, for every well-formed string
  that does not start with U+FEFF (the empty string too, and of any length):
  \<open>compressText\<close> returns the Base64 text of all the compressed bytes, the same as one
  conversion of the whole array would give, this text is valid Base64, and
  \<open>decompressText\<close> of it returns the string. By \<open>unchunked_conversion_fails\<close> one call
  of \<open>String.fromCharCode.apply\<close> on an array longer than the engine accepts throws.
\<close>

theorem compress_round_trip:
  assumes limit: "chunkSize \<le> max_arguments P"
    and streams: "streams_invert P (TextEncoder_encode text)"
    and well_formed: "well_formed text"
    and no_BOM: "text = [] \<or> hd text \<noteq> 0xFEFF"
  shows "compressText P text
           = Inr (btoa (binary_string (concat (gzip_stream P (TextEncoder_encode text)))))
       \<and> valid_base64 (btoa (binary_string (concat (gzip_stream P (TextEncoder_encode text)))))
       \<and> decompressText P (btoa (binary_string (concat (gzip_stream P (TextEncoder_encode text)))))
           = Inr text"
proof (intro conjI)
  show "compressText P text
           = Inr (btoa (binary_string (concat (gzip_stream P (TextEncoder_encode text)))))"
    by (rule compressText_result [OF limit])
  show "valid_base64 (btoa (binary_string (concat (gzip_stream P (TextEncoder_encode text)))))"
    by (rule valid_base64_btoa)
  show "decompressText P (btoa (binary_string (concat (gzip_stream P (TextEncoder_encode text)))))
           = Inr text"
    by (simp only: decompressText_compressed [OF streams] text_codec_round_trip [OF well_formed no_BOM])
qed

theorem compress_round_trip_witness:
  "compressText identity_streams [0x4E2D, 0x41, 0xE9, 0xD83D, 0xDD16] = Inr ''5LitQcOp8J+Ulg==''
   \<and> valid_base64 ''5LitQcOp8J+Ulg==''
   \<and> decompressText identity_streams ''5LitQcOp8J+Ulg=='' = Inr [0x4E2D, 0x41, 0xE9, 0xD83D, 0xDD16]"
proof -
  let ?text = "[0x4E2D, 0x41, 0xE9, 0xD83D, 0xDD16] :: js_string"
  have enc: "TextEncoder_encode ?text = [228, 184, 173, 65, 195, 169, 240, 159, 148, 150]"
    by (simp add: text_defs)
  have gz: "concat (gzip_stream identity_streams d) = d" for d
    by (simp add: identity_streams_def)
  have b64: "btoa (binary_string [228, 184, 173, 65, 195, 169, 240, 159, 148, 150]) = ''5LitQcOp8J+Ulg==''"
    by code_simp
  have wf: "well_formed ?text"
    by simp
  have first: "?text = [] \<or> hd ?text \<noteq> 0xFEFF"
    by simp
  from compress_round_trip [OF identity_limit identity_streams_invert wf first]
  show ?thesis
    by (simp only: enc gz b64)
qed

end
